theory Spec2Isabelle
  imports Complex_Main
begin

section \<open>Data model of the dashboard's rate stream\<close>

text \<open>
  The TypeScript interfaces of \<^verbatim>\<open>types/rates\<close>. A \<^verbatim>\<open>number\<close> held in these interfaces is
  modelled as a \<^typ>\<open>real\<close>, its finite value: the hook only stores and copies such numbers
  (the arithmetic of doubles, with its infinities and \<^verbatim>\<open>NaN\<close>, is modelled where the code
  computes, in the chart component below). \<^verbatim>\<open>T | null\<close> is an option, a \<^verbatim>\<open>string\<close> a
  \<^typ>\<open>string\<close>, an array a list. The three interfaces share the
  field names \<^verbatim>\<open>pair\<close>, \<^verbatim>\<open>price\<close>, \<^verbatim>\<open>last_update\<close>; the fields of
  \<^verbatim>\<open>PricePoint\<close> and \<^verbatim>\<open>RateUpdateMessage\<close> carry a prefix here to keep them apart.
\<close>

record PricePoint =
  timestamp :: string
  point_price :: real

record PairState =
  pair :: string
  price :: "real option"
  hourly_avg :: "real option"
  last_update :: "string option"
  history :: "PricePoint list"

record RateUpdateMessage =
  msg_pair :: string
  msg_price :: real
  msg_hourly_avg :: real
  msg_last_update :: string

definition MAX_POINTS :: nat where
  "MAX_POINTS = 40"

section \<open>The pure helpers of \<^verbatim>\<open>useRatesStream.ts\<close>\<close>

text \<open>
  \<^verbatim>\<open>fromSnapshot\<close>: \<^verbatim>\<open>snapshot.map((s) => ({ ...s, history: [] }))\<close>. The declared element type
  is \<^verbatim>\<open>Omit<PairState, 'history'>\<close>, but the value comes from \<^verbatim>\<open>fetchRatesSnapshot\<close>, whose
  result type is \<^verbatim>\<open>PairState[]\<close> (cast with \<^verbatim>\<open>as any\<close>); the spread copies whatever the entry
  holds and the literal \<^verbatim>\<open>history: []\<close> then overrides it.
\<close>

definition fromSnapshot :: "PairState list \<Rightarrow> PairState list" where
  "fromSnapshot snapshot = map (\<lambda>s. s\<lparr>history := []\<rparr>) snapshot"

text \<open>
  \<^verbatim>\<open>appendHistoryPoint\<close>. \<^verbatim>\<open>nextHistory.splice(0, n)\<close> removes the first \<^verbatim>\<open>n\<close> elements in
  place, which is \<^term>\<open>drop n\<close>.
\<close>

definition appendHistoryPoint :: "PairState list \<Rightarrow> RateUpdateMessage \<Rightarrow> PairState list" where
  "appendHistoryPoint current update =
     (let point = \<lparr>timestamp = msg_last_update update, point_price = msg_price update\<rparr>
      in map (\<lambda>p.
           if pair p \<noteq> msg_pair update then p
           else
             let appended = history p @ [point];
                 nextHistory =
                   (if length appended > MAX_POINTS
                    then drop (length appended - MAX_POINTS) appended
                    else appended)
             in p\<lparr>price := Some (msg_price update),
                  hourly_avg := Some (msg_hourly_avg update),
                  last_update := Some (msg_last_update update),
                  history := nextHistory\<rparr>)
         current)"

text \<open>
  The message handler calls \<^verbatim>\<open>setRates((prev) => appendHistoryPoint(prev, msg))\<close> once per
  message, so a sequence of messages is a left fold over the state.
\<close>

definition applyUpdates :: "PairState list \<Rightarrow> RateUpdateMessage list \<Rightarrow> PairState list" where
  "applyUpdates current updates = foldl appendHistoryPoint current updates"

text \<open>
  The point that \<^const>\<open>appendHistoryPoint\<close> builds from a message (its local constant
  \<^verbatim>\<open>point\<close>), and the last \<open>n\<close> entries of a list, for stating what a history holds.
\<close>

definition point_of :: "RateUpdateMessage \<Rightarrow> PricePoint" where
  "point_of update = \<lparr>timestamp = msg_last_update update, point_price = msg_price update\<rparr>"

definition keep_last :: "nat \<Rightarrow> 'a list \<Rightarrow> 'a list" where
  "keep_last n xs = drop (length xs - n) xs"

text \<open>Sample values for the concrete instances below.\<close>

abbreviation unseen :: "string \<Rightarrow> PairState" where
  "unseen name \<equiv>
     \<lparr>pair = name, price = None, hourly_avg = None, last_update = None, history = []\<rparr>"

abbreviation quote :: "string \<Rightarrow> real \<Rightarrow> string \<Rightarrow> RateUpdateMessage" where
  "quote name v t \<equiv>
     \<lparr>msg_pair = name, msg_price = v, msg_hourly_avg = v, msg_last_update = t\<rparr>"

section \<open>The hook \<^verbatim>\<open>useRatesStream\<close> as an event-driven state machine\<close>

text \<open>
  The union type \<^verbatim>\<open>ConnectionStatus\<close>
  (\<^verbatim>\<open>'idle' | 'connecting' | 'connected' | 'closed' | 'error'\<close>).
\<close>

datatype ConnectionStatus = Idle | Connecting | Connected | Closed | Error

text \<open>
  The effect callback of \<^verbatim>\<open>useEffect\<close> calls \<^verbatim>\<open>start()\<close> each time it runs, with no guard,
  and each call has its own local \<^verbatim>\<open>ws\<close>. The calls of \<^verbatim>\<open>start\<close> on one hook instance are
  numbered from 0 in the order they are made; the socket that call \<open>k\<close> constructs is socket
  \<open>k\<close>.

  What the hook does to its surroundings, in the order it does it, each with the number of
  the call of \<^verbatim>\<open>start\<close> that does it (or whose socket's handler or whose cleanup does it):
  the call of \<^verbatim>\<open>fetchRatesSnapshot\<close>, the two kinds of \<^verbatim>\<open>setRates\<close> call, the construction of
  the WebSocket, \<^verbatim>\<open>ws.close()\<close> and the \<^verbatim>\<open>console.error\<close> calls (with their first argument).
\<close>

datatype effect =
    FetchRatesSnapshot nat
  | SetRatesFromSnapshot nat
  | SetRatesAppend nat
  | NewWebSocket nat
  | CloseWebSocket nat
  | ConsoleError nat string

fun call_of :: "effect \<Rightarrow> nat" where
  "call_of (FetchRatesSnapshot k) = k"
| "call_of (SetRatesFromSnapshot k) = k"
| "call_of (SetRatesAppend k) = k"
| "call_of (NewWebSocket k) = k"
| "call_of (CloseWebSocket k) = k"
| "call_of (ConsoleError k text) = k"

text \<open>
  Where one call of \<^verbatim>\<open>start\<close> stands: suspended at \<^verbatim>\<open>await fetchRatesSnapshot()\<close>, finished
  with \<^verbatim>\<open>ws\<close> assigned and the four socket handlers installed, or finished in the \<^verbatim>\<open>catch\<close> of
  the WebSocket \<^verbatim>\<open>try\<close> block (\<^verbatim>\<open>ws\<close> still \<^verbatim>\<open>null\<close>, no handler installed).
\<close>

datatype control = AwaitingSnapshot | HandlersInstalled | WebSocketFailed

text \<open>
  The three \<^verbatim>\<open>useState\<close> cells of the hook, the control point of every call of \<^verbatim>\<open>start\<close>
  made so far and the effects so far.
\<close>

record hook =
  rates :: "PairState list"
  connectionStatus :: ConnectionStatus
  error :: "string option"
  calls :: "control list"
  effects :: "effect list"

definition control_of :: "hook \<Rightarrow> nat \<Rightarrow> control option" where
  "control_of s k = (if k < length (calls s) then Some (calls s ! k) else None)"

text \<open>
  The result of \<^verbatim>\<open>JSON.parse(event.data)\<close>, typed \<^verbatim>\<open>RateUpdateMessage\<close> by the source: it
  throws (\<open>Unparseable\<close>) or yields a message.
\<close>

datatype ws_data = Unparseable | Parsed RateUpdateMessage

text \<open>
  What the browser and React deliver to the hook. \<open>Mount\<close> is one run of the effect
  callback, which calls \<^verbatim>\<open>start\<close>; React runs it once per mount, and in development under
  \<^verbatim>\<open>StrictMode\<close> a second time on the same hook instance. \<open>SnapshotSettled k r throws\<close> resumes
  call \<open>k\<close> of \<^verbatim>\<open>start\<close> after its \<^verbatim>\<open>await\<close>: \<open>r\<close> is \<open>Inl\<close> when the first \<^verbatim>\<open>try\<close> block throws
  (the fetch is rejected, or its value cannot be mapped) and \<open>Inr\<close> the snapshot otherwise;
  \<open>throws\<close> tells whether \<^verbatim>\<open>new WebSocket(wsUrl)\<close> throws. \<open>WsOpen k\<close>, \<open>WsMessage k d\<close>,
  \<open>WsError k\<close> and \<open>WsClose k\<close> are the events of socket \<open>k\<close>. \<open>Cleanup k isOpen\<close> is the
  cleanup function returned by the effect run that made call \<open>k\<close>; \<open>isOpen\<close> is what
  \<^verbatim>\<open>ws.readyState === WebSocket.OPEN\<close> yields when it runs.
\<close>

datatype event =
    Mount
  | SnapshotSettled nat "string + PairState list" bool
  | WsOpen nat
  | WsMessage nat ws_data
  | WsError nat
  | WsClose nat
  | Cleanup nat bool

definition initial :: hook where
  "initial = \<lparr>rates = [], connectionStatus = Idle, error = None, calls = [], effects = []\<rparr>"

text \<open>A new call of \<^verbatim>\<open>start\<close>, up to its \<^verbatim>\<open>await\<close>.\<close>

definition start_call :: "hook \<Rightarrow> hook" where
  "start_call s =
     s\<lparr>calls := calls s @ [AwaitingSnapshot],
       effects := effects s @ [FetchRatesSnapshot (length (calls s))]\<rparr>"

text \<open>
  The first \<^verbatim>\<open>try\<close>/\<^verbatim>\<open>catch\<close> of call \<open>k\<close> of \<^verbatim>\<open>start\<close>, from the point where the \<^verbatim>\<open>await\<close>
  settles.
\<close>

definition snapshot_settled :: "nat \<Rightarrow> string + PairState list \<Rightarrow> hook \<Rightarrow> hook" where
  "snapshot_settled k r s =
     (case r of
        Inr snapshot \<Rightarrow>
          s\<lparr>rates := fromSnapshot snapshot, effects := effects s @ [SetRatesFromSnapshot k]\<rparr>
      | Inl err \<Rightarrow>
          s\<lparr>error := Some ''Failed to load initial rates.'',
             effects := effects s @ [ConsoleError k ''Failed to fetch initial snapshot:'']\<rparr>)"

text \<open>
  The rest of call \<open>k\<close> of \<^verbatim>\<open>start\<close>: \<^verbatim>\<open>setConnectionStatus('connecting')\<close>, then the second
  \<^verbatim>\<open>try\<close>/\<^verbatim>\<open>catch\<close>, which constructs the socket and assigns its handlers.
\<close>

definition open_socket :: "nat \<Rightarrow> bool \<Rightarrow> hook \<Rightarrow> hook" where
  "open_socket k throws s =
     (let s1 = s\<lparr>connectionStatus := Connecting, effects := effects s @ [NewWebSocket k]\<rparr>
      in if throws
         then s1\<lparr>connectionStatus := Error,
                 error := Some ''Could not open WebSocket connection.'',
                 calls := (calls s1)[k := WebSocketFailed],
                 effects := effects s1 @ [ConsoleError k ''Failed to open WebSocket:'']\<rparr>
         else s1\<lparr>calls := (calls s1)[k := HandlersInstalled]\<rparr>)"

text \<open>The four handlers that call \<open>k\<close> assigns to its socket.\<close>

definition onopen :: "hook \<Rightarrow> hook" where
  "onopen s = s\<lparr>connectionStatus := Connected, error := None\<rparr>"

definition onmessage :: "nat \<Rightarrow> ws_data \<Rightarrow> hook \<Rightarrow> hook" where
  "onmessage k d s =
     (case d of
        Parsed msg \<Rightarrow>
          s\<lparr>rates := appendHistoryPoint (rates s) msg,
             effects := effects s @ [SetRatesAppend k]\<rparr>
      | Unparseable \<Rightarrow>
          s\<lparr>effects := effects s @ [ConsoleError k ''Failed to parse WebSocket message:'']\<rparr>)"

definition onerror :: "nat \<Rightarrow> hook \<Rightarrow> hook" where
  "onerror k s =
     s\<lparr>connectionStatus := Error, error := Some ''WebSocket connection error.'',
       effects := effects s @ [ConsoleError k ''WebSocket error:'']\<rparr>"

definition onclose :: "hook \<Rightarrow> hook" where
  "onclose s = s\<lparr>connectionStatus := Closed\<rparr>"

text \<open>
  The cleanup function of the effect run that made call \<open>k\<close>:
  \<^verbatim>\<open>if (ws && ws.readyState === WebSocket.OPEN) ws.close()\<close>. It sets no state and does not
  cancel a call of \<^verbatim>\<open>start\<close> that still waits for its fetch.
\<close>

definition cleanup :: "nat \<Rightarrow> bool \<Rightarrow> hook \<Rightarrow> hook" where
  "cleanup k isOpen s =
     (if control_of s k = Some HandlersInstalled \<and> isOpen
      then s\<lparr>effects := effects s @ [CloseWebSocket k]\<rparr>
      else s)"

text \<open>
  One event. Every run of the effect starts a new call of \<^verbatim>\<open>start\<close>. An event for which the
  code has nothing installed (an event of a socket that does not exist, a settlement for a
  call that does not wait) changes nothing.
\<close>

fun step :: "hook \<Rightarrow> event \<Rightarrow> hook" where
  "step s Mount = start_call s"
| "step s (SnapshotSettled k r throws) =
     (if control_of s k = Some AwaitingSnapshot
      then open_socket k throws (snapshot_settled k r s) else s)"
| "step s (WsOpen k) = (if control_of s k = Some HandlersInstalled then onopen s else s)"
| "step s (WsMessage k d) =
     (if control_of s k = Some HandlersInstalled then onmessage k d s else s)"
| "step s (WsError k) = (if control_of s k = Some HandlersInstalled then onerror k s else s)"
| "step s (WsClose k) = (if control_of s k = Some HandlersInstalled then onclose s else s)"
| "step s (Cleanup k isOpen) = cleanup k isOpen s"

definition run :: "hook \<Rightarrow> event list \<Rightarrow> hook" where
  "run s evs = foldl step s evs"

text \<open>
  Two hook states show the same to the component's caller and stand at the same control
  points; they may differ in the effects recorded.
\<close>

definition same_visible :: "hook \<Rightarrow> hook \<Rightarrow> bool" where
  "same_visible s t \<longleftrightarrow>
     rates s = rates t \<and> connectionStatus s = connectionStatus t \<and> error s = error t
     \<and> calls s = calls t"

text \<open>The effects of call \<open>k\<close> of \<^verbatim>\<open>start\<close>, of its socket's handlers and of its cleanup.\<close>

definition call_effects :: "nat \<Rightarrow> hook \<Rightarrow> effect list" where
  "call_effects k s = filter (\<lambda>e. call_of e = k) (effects s)"

text \<open>
  What the effects of a call that has got past its \<^verbatim>\<open>await\<close> look like: the fetch, then
  either the \<^verbatim>\<open>setRates\<close> of the snapshot or the \<^verbatim>\<open>console.error\<close> of the failed fetch, then
  the construction of the socket, then a tail that holds no \<^verbatim>\<open>setRates\<close> of a snapshot.
\<close>

definition settled_effects :: "nat \<Rightarrow> effect list \<Rightarrow> bool" where
  "settled_effects k es \<longleftrightarrow>
     (\<exists>tail.
        (es = FetchRatesSnapshot k # SetRatesFromSnapshot k # NewWebSocket k # tail
         \<or> es = FetchRatesSnapshot k # ConsoleError k ''Failed to fetch initial snapshot:''
                  # NewWebSocket k # tail)
        \<and> SetRatesFromSnapshot k \<notin> set tail)"

text \<open>
  The effects of call \<open>k\<close> fit its control point: none before the call is made, the fetch
  alone while it waits, and the settled form from then on.
\<close>

definition call_shape :: "nat \<Rightarrow> hook \<Rightarrow> bool" where
  "call_shape k s \<longleftrightarrow>
     (case control_of s k of
        None \<Rightarrow> call_effects k s = []
      | Some AwaitingSnapshot \<Rightarrow> call_effects k s = [FetchRatesSnapshot k]
      | Some HandlersInstalled \<Rightarrow> settled_effects k (call_effects k s)
      | Some WebSocketFailed \<Rightarrow> settled_effects k (call_effects k s))"

text \<open>Call \<open>k\<close> of \<^verbatim>\<open>start\<close> has run to its end.\<close>

definition started :: "nat \<Rightarrow> hook \<Rightarrow> bool" where
  "started k s \<longleftrightarrow>
     control_of s k = Some HandlersInstalled \<or> control_of s k = Some WebSocketFailed"

text \<open>The effect has run once: there is one call of \<^verbatim>\<open>start\<close>, and every effect is its own.\<close>

definition only_first_call :: "hook \<Rightarrow> bool" where
  "only_first_call s \<longleftrightarrow> length (calls s) = 1 \<and> (\<forall>e \<in> set (effects s). call_of e = 0)"

section \<open>The component \<^verbatim>\<open>MiniChart\<close>\<close>

text \<open>
  The values of a JavaScript \<^verbatim>\<open>number\<close> that the component's arithmetic can produce: a
  finite double, the two infinities and \<^verbatim>\<open>NaN\<close>. A finite double is given by its real
  value; the sign of zero is not kept.
\<close>

datatype jsnum = Num real | PosInfinity | NegInfinity | NaN

text \<open>
  \<^verbatim>\<open>Number.MAX_VALUE\<close>, the largest finite double, and the least magnitude that rounds to an
  infinity (half a unit in the last place above it).
\<close>

definition MAX_VALUE :: real where
  "MAX_VALUE = 2 ^ 1024 - 2 ^ 971"

definition OVERFLOW :: real where
  "OVERFLOW = 2 ^ 1024 - 2 ^ 970"

text \<open>
  The double that an arithmetic operation returns for the exact result \<open>r\<close>: an infinity
  from \<^const>\<open>OVERFLOW\<close> on. Below it the exact result stands for the nearest double: the
  rounding of a result in range is not modelled.
\<close>

definition to_double :: "real \<Rightarrow> jsnum" where
  "to_double r =
     (if OVERFLOW \<le> r then PosInfinity
      else if r \<le> - OVERFLOW then NegInfinity
      else Num r)"

fun js_neg :: "jsnum \<Rightarrow> jsnum" where
  "js_neg (Num a) = Num (- a)"
| "js_neg PosInfinity = NegInfinity"
| "js_neg NegInfinity = PosInfinity"
| "js_neg NaN = NaN"

text \<open>\<^verbatim>\<open>a + b\<close> and \<^verbatim>\<open>a - b\<close>: the sum of opposite infinities is \<^verbatim>\<open>NaN\<close>.\<close>

fun js_add :: "jsnum \<Rightarrow> jsnum \<Rightarrow> jsnum" where
  "js_add NaN b = NaN"
| "js_add a NaN = NaN"
| "js_add (Num a) (Num b) = to_double (a + b)"
| "js_add PosInfinity NegInfinity = NaN"
| "js_add NegInfinity PosInfinity = NaN"
| "js_add (Num a) b = b"
| "js_add a b = a"

definition js_sub :: "jsnum \<Rightarrow> jsnum \<Rightarrow> jsnum" where
  "js_sub a b = js_add a (js_neg b)"

text \<open>\<^verbatim>\<open>a * b\<close>: zero times an infinity is \<^verbatim>\<open>NaN\<close>.\<close>

fun js_mul :: "jsnum \<Rightarrow> jsnum \<Rightarrow> jsnum" where
  "js_mul NaN b = NaN"
| "js_mul a NaN = NaN"
| "js_mul (Num a) (Num b) = to_double (a * b)"
| "js_mul (Num a) b = (if a = 0 then NaN else if 0 < a then b else js_neg b)"
| "js_mul a (Num b) = (if b = 0 then NaN else if 0 < b then a else js_neg a)"
| "js_mul PosInfinity b = b"
| "js_mul NegInfinity b = js_neg b"

text \<open>
  \<^verbatim>\<open>a / b\<close>. JavaScript's division raises nothing: a finite number divided by zero is an
  infinity (here of the dividend's sign), zero by zero and an infinity by an infinity are
  \<^verbatim>\<open>NaN\<close>, a finite number by an infinity is zero.
\<close>

fun js_div :: "jsnum \<Rightarrow> jsnum \<Rightarrow> jsnum" where
  "js_div NaN b = NaN"
| "js_div a NaN = NaN"
| "js_div (Num a) (Num b) =
     (if b = 0 then (if a = 0 then NaN else if 0 < a then PosInfinity else NegInfinity)
      else to_double (a / b))"
| "js_div (Num a) b = Num 0"
| "js_div a (Num b) = (if 0 \<le> b then a else js_neg a)"
| "js_div a b = NaN"

text \<open>
  \<^verbatim>\<open>a || b\<close> on numbers yields \<^verbatim>\<open>b\<close> when \<^verbatim>\<open>a\<close> is falsy; zero and \<^verbatim>\<open>NaN\<close> are the falsy
  numbers.
\<close>

fun truthy :: "jsnum \<Rightarrow> bool" where
  "truthy (Num a) = (a \<noteq> 0)"
| "truthy NaN = False"
| "truthy a = True"

definition js_or :: "jsnum \<Rightarrow> jsnum \<Rightarrow> jsnum" where
  "js_or a b = (if truthy a then a else b)"

text \<open>
  \<^verbatim>\<open>Math.min(...xs)\<close> and \<^verbatim>\<open>Math.max(...xs)\<close>: \<^verbatim>\<open>NaN\<close> if an argument is, \<^verbatim>\<open>Infinity\<close> and
  \<^verbatim>\<open>-Infinity\<close> for no argument.
\<close>

fun js_min :: "jsnum \<Rightarrow> jsnum \<Rightarrow> jsnum" where
  "js_min NaN b = NaN"
| "js_min a NaN = NaN"
| "js_min NegInfinity b = NegInfinity"
| "js_min a NegInfinity = NegInfinity"
| "js_min PosInfinity b = b"
| "js_min a PosInfinity = a"
| "js_min (Num a) (Num b) = Num (min a b)"

fun js_max :: "jsnum \<Rightarrow> jsnum \<Rightarrow> jsnum" where
  "js_max NaN b = NaN"
| "js_max a NaN = NaN"
| "js_max PosInfinity b = PosInfinity"
| "js_max a PosInfinity = PosInfinity"
| "js_max NegInfinity b = b"
| "js_max a NegInfinity = a"
| "js_max (Num a) (Num b) = Num (max a b)"

definition Math_min :: "jsnum list \<Rightarrow> jsnum" where
  "Math_min xs = foldl js_min PosInfinity xs"

definition Math_max :: "jsnum list \<Rightarrow> jsnum" where
  "Math_max xs = foldl js_max NegInfinity xs"

definition width :: real where
  "width = 260"

definition height :: real where
  "height = 60"

text \<open>
  The component's \<^verbatim>\<open>min\<close>, \<^verbatim>\<open>max\<close> and \<^verbatim>\<open>range\<close>: \<^verbatim>\<open>Math.min(...prices)\<close>,
  \<^verbatim>\<open>Math.max(...prices) || 1\<close> and \<^verbatim>\<open>max - min || 1\<close>.
\<close>

definition chart_min :: "jsnum list \<Rightarrow> jsnum" where
  "chart_min prices = Math_min prices"

definition chart_max :: "jsnum list \<Rightarrow> jsnum" where
  "chart_max prices = js_or (Math_max prices) (Num 1)"

definition chart_range :: "jsnum list \<Rightarrow> jsnum" where
  "chart_range prices = js_or (js_sub (chart_max prices) (chart_min prices)) (Num 1)"

text \<open>
  What the component renders: the placeholder, or the polyline through one \<open>(x, y)\<close> per
  point (the source joins them into the \<^verbatim>\<open>points\<close> attribute as \<^verbatim>\<open>x,y\<close> strings, so a
  \<^verbatim>\<open>NaN\<close> coordinate is rendered as the text \<^verbatim>\<open>NaN\<close>). The price of a point is a finite
  number, as in the data model.
\<close>

datatype chart = WaitingForData | Polyline "(jsnum \<times> jsnum) list"

definition MiniChart :: "PricePoint list \<Rightarrow> chart" where
  "MiniChart points =
     (if length points = 0 then WaitingForData
      else
        let prices = map (\<lambda>p. Num (point_price p)) points;
            stepX = (if length points > 1
                     then js_div (Num width) (Num (real (length points - 1)))
                     else Num width);
            path = map (\<lambda>(index, p).
                      let x = js_mul (Num (real index)) stepX;
                          normalized = js_div (js_sub (Num (point_price p)) (chart_min prices))
                                         (chart_range prices);
                          y = js_sub (Num height) (js_mul normalized (Num height))
                      in (x, y))
                    (enumerate 0 points)
        in Polyline path)"

section \<open>The backend's pair state store\<close>

text \<open>
  Modelled from the spec: the backend aggregation service (the ``Pair State Store'' and
  ``Hourly Rollover Engine'' of sections 3, 4.1 and 4.2) is not among the source files;
  only the frontend that displays its \<^verbatim>\<open>hourly_avg\<close> is. A \<open>Tick\<close> is
  \<^verbatim>\<open>{pair, price, observed_at}\<close>; timestamps are counted in seconds.
\<close>

record Tick =
  tick_pair :: string
  tick_price :: real
  observed_at :: int

text \<open>
  Modelled from the spec: the per-pair state of section 3, \<^verbatim>\<open>{pair, last_price,
  hourly_average, hour_started_at, last_update, recent_history}\<close>, together with the hour
  bucket's accumulator \<^verbatim>\<open>{sum_of_prices, tick_count, bucket_start}\<close>; the bucket's start is
  \<open>hour_started_at\<close>.
\<close>

record TrackedPair =
  tp_pair :: string
  last_price :: "real option"
  hourly_average :: "real option"
  hour_started_at :: "int option"
  tp_last_update :: "int option"
  recent_history :: "(int \<times> real) list"
  sum_of_prices :: real
  tick_count :: nat

text \<open>Modelled from the spec: one hour, in seconds.\<close>

definition HOUR :: int where
  "HOUR = 3600"

text \<open>
  Modelled from the spec: section 4.2, \<^verbatim>\<open>continues_bucket(bucket_start, observed_at)\<close> is
  ``true iff \<^verbatim>\<open>observed_at - bucket_start < 1 hour\<close> and \<^verbatim>\<open>observed_at >= bucket_start\<close>''.
\<close>

definition continues_bucket :: "int \<Rightarrow> int \<Rightarrow> bool" where
  "continues_bucket bucket_start t \<longleftrightarrow> t - bucket_start < HOUR \<and> t \<ge> bucket_start"

text \<open>
  Modelled from the spec: section 3, a pair's state is ``created lazily on first tick for
  that pair or pre-seeded at startup \<dots> with all fields absent''.
\<close>

definition fresh_pair :: "string \<Rightarrow> TrackedPair" where
  "fresh_pair p =
     \<lparr>tp_pair = p, last_price = None, hourly_average = None, hour_started_at = None,
      tp_last_update = None, recent_history = [], sum_of_prices = 0, tick_count = 0\<rparr>"

text \<open>
  Modelled from the spec: section 4.1, ``a tick with non-positive price or a timestamp
  earlier than the pair's \<^verbatim>\<open>last_update\<close> is rejected (ignored, not fatal)''.
\<close>

definition tick_rejected :: "TrackedPair \<Rightarrow> Tick \<Rightarrow> bool" where
  "tick_rejected st tick \<longleftrightarrow>
     tick_price tick \<le> 0
     \<or> (case tp_last_update st of None \<Rightarrow> False | Some lu \<Rightarrow> observed_at tick < lu)"

text \<open>
  Modelled from the spec: section 4.1, \<^verbatim>\<open>apply_tick\<close>: ``look up (or lazily create) the
  pair's bucket; delegate to the Hourly Rollover Engine to decide bucket continuation vs.
  reset; update \<^verbatim>\<open>sum_of_prices\<close>/\<^verbatim>\<open>tick_count\<close>; recompute \<^verbatim>\<open>hourly_average\<close>; set
  \<^verbatim>\<open>last_price\<close>/\<^verbatim>\<open>last_update\<close> from the tick; append \<^verbatim>\<open>(observed_at, price)\<close> to
  \<^verbatim>\<open>recent_history\<close>, trimming from the front if length exceeds 40''; on a reset (section
  4.2) the new bucket has \<^verbatim>\<open>bucket_start = observed_at\<close>, \<^verbatim>\<open>sum_of_prices = price\<close>,
  \<^verbatim>\<open>tick_count = 1\<close>. The store maps a pair's symbol to its state.
\<close>

definition apply_tick :: "(string \<rightharpoonup> TrackedPair) \<Rightarrow> Tick \<Rightarrow> (string \<rightharpoonup> TrackedPair)" where
  "apply_tick store tick =
     (let st = (case store (tick_pair tick) of
                  None \<Rightarrow> fresh_pair (tick_pair tick)
                | Some st0 \<Rightarrow> st0)
      in if tick_rejected st tick then store
         else
           let continues = (case hour_started_at st of
                              None \<Rightarrow> False
                            | Some bucket_start \<Rightarrow>
                                continues_bucket bucket_start (observed_at tick));
               total = (if continues then sum_of_prices st + tick_price tick
                        else tick_price tick);
               n = (if continues then tick_count st + 1 else 1);
               appended = recent_history st @ [(observed_at tick, tick_price tick)]
           in store(tick_pair tick \<mapsto>
                st\<lparr>last_price := Some (tick_price tick),
                   hourly_average := Some (total / real n),
                   hour_started_at :=
                     (if continues then hour_started_at st else Some (observed_at tick)),
                   tp_last_update := Some (observed_at tick),
                   recent_history := drop (length appended - 40) appended,
                   sum_of_prices := total,
                   tick_count := n\<rparr>))"

text \<open>Modelled from the spec: a sequence of ticks is applied one after the other.\<close>

definition apply_ticks :: "(string \<rightharpoonup> TrackedPair) \<Rightarrow> Tick list \<Rightarrow> (string \<rightharpoonup> TrackedPair)" where
  "apply_ticks store ticks = foldl apply_tick store ticks"

text \<open>
  The tick is accepted by the store and starts a bucket: the pair is unknown or has no
  bucket yet, or the tick is not older than the pair's last update and does not continue
  the pair's current bucket.
\<close>

definition opens_bucket :: "(string \<rightharpoonup> TrackedPair) \<Rightarrow> Tick \<Rightarrow> bool" where
  "opens_bucket store tick \<longleftrightarrow>
     (case store (tick_pair tick) of
        None \<Rightarrow> True
      | Some st \<Rightarrow>
          (case tp_last_update st of None \<Rightarrow> True | Some lu \<Rightarrow> lu \<le> observed_at tick)
          \<and> (case hour_started_at st of
                None \<Rightarrow> True
              | Some b \<Rightarrow> \<not> continues_bucket b (observed_at tick)))"

abbreviation trade :: "real \<Rightarrow> int \<Rightarrow> Tick" where
  "trade v t \<equiv> \<lparr>tick_pair = ''ETH/USD'', tick_price = v, observed_at = t\<rparr>"

section \<open>Properties of \<^const>\<open>appendHistoryPoint\<close>\<close>

lemma length_appendHistoryPoint: "length (appendHistoryPoint current update) = length current"
  by (simp add: appendHistoryPoint_def Let_def)

lemma nth_appendHistoryPoint_other:
  "i < length current \<Longrightarrow> pair (current ! i) \<noteq> msg_pair update
     \<Longrightarrow> appendHistoryPoint current update ! i = current ! i"
  by (simp add: appendHistoryPoint_def Let_def)

lemma nth_appendHistoryPoint_same:
  "i < length current \<Longrightarrow> pair (current ! i) = msg_pair update
     \<Longrightarrow> appendHistoryPoint current update ! i =
         (current ! i)\<lparr>price := Some (msg_price update),
                        hourly_avg := Some (msg_hourly_avg update),
                        last_update := Some (msg_last_update update),
                        history :=
                          keep_last MAX_POINTS (history (current ! i) @ [point_of update])\<rparr>"
  by (simp add: appendHistoryPoint_def Let_def keep_last_def point_of_def)

lemma pair_nth_appendHistoryPoint:
  "i < length current \<Longrightarrow> pair (appendHistoryPoint current update ! i) = pair (current ! i)"
  by (simp add: appendHistoryPoint_def Let_def)

lemma length_keep_last: "length (keep_last n xs) = min n (length xs)"
  by (simp add: keep_last_def)

lemma keep_last_snoc:
  "0 < n \<Longrightarrow> keep_last n (keep_last n xs @ [x]) = keep_last n (xs @ [x])"
proof (cases "length xs \<le> n")
  case True
  then show ?thesis by (simp add: keep_last_def)
next
  case False
  assume "0 < n"
  with False have "Suc (length xs - n) = Suc (length xs) - n" by simp
  with False show ?thesis
    by (simp add: keep_last_def)
qed

lemma keep_last_append_long: "n \<le> length ys \<Longrightarrow> keep_last n (xs @ ys) = keep_last n ys"
  by (simp add: keep_last_def)

lemma length_applyUpdates: "length (applyUpdates current us) = length current"
  unfolding applyUpdates_def
  by (induction us arbitrary: current) (simp_all add: length_appendHistoryPoint)

lemma applyUpdates_snoc:
  "applyUpdates current (us @ [u]) = appendHistoryPoint (applyUpdates current us) u"
  by (simp add: applyUpdates_def)

lemma pair_nth_applyUpdates:
  "i < length current \<Longrightarrow> pair (applyUpdates current us ! i) = pair (current ! i)"
proof (induction us rule: rev_induct)
  case Nil
  show ?case by (simp add: applyUpdates_def)
next
  case (snoc u us)
  then show ?case
    by (simp add: applyUpdates_snoc pair_nth_appendHistoryPoint length_applyUpdates)
qed

text \<open>
  The history of the entry at position \<open>i\<close> after a sequence of messages: untouched while
  none of them names the entry's pair, and otherwise the last \<^const>\<open>MAX_POINTS\<close> entries of
  the old history followed by the points of the pair's own messages.
\<close>

lemma history_applyUpdates:
  assumes "i < length current"
  shows "history (applyUpdates current us ! i) =
     (if filter (\<lambda>u. msg_pair u = pair (current ! i)) us = [] then history (current ! i)
      else keep_last MAX_POINTS (history (current ! i) @
             map point_of (filter (\<lambda>u. msg_pair u = pair (current ! i)) us)))"
proof (induction us rule: rev_induct)
  case Nil
  show ?case by (simp add: applyUpdates_def)
next
  case (snoc u us)
  let ?mine = "filter (\<lambda>u. msg_pair u = pair (current ! i)) us"
  let ?prev = "applyUpdates current us"
  have len: "i < length ?prev" using assms by (simp add: length_applyUpdates)
  show ?case
  proof (cases "msg_pair u = pair (current ! i)")
    case True
    have a: "pair (?prev ! i) = msg_pair u"
      using True assms by (simp add: pair_nth_applyUpdates)
    have step: "history (applyUpdates current (us @ [u]) ! i) =
        keep_last MAX_POINTS (history (?prev ! i) @ [point_of u])"
      unfolding applyUpdates_snoc by (simp add: nth_appendHistoryPoint_same [OF len a])
    show ?thesis
    proof (cases "?mine = []")
      case True
      with step snoc \<open>msg_pair u = pair (current ! i)\<close> show ?thesis by simp
    next
      case False
      have "keep_last MAX_POINTS
              (keep_last MAX_POINTS (history (current ! i) @ map point_of ?mine) @ [point_of u])
          = keep_last MAX_POINTS ((history (current ! i) @ map point_of ?mine) @ [point_of u])"
        by (rule keep_last_snoc) (simp add: MAX_POINTS_def)
      with False step snoc \<open>msg_pair u = pair (current ! i)\<close> show ?thesis by simp
    qed
  next
    case False
    have a: "pair (?prev ! i) \<noteq> msg_pair u"
      using False assms by (simp add: pair_nth_applyUpdates)
    show ?thesis
      using False snoc a assms
      by (simp add: applyUpdates_snoc nth_appendHistoryPoint_other length_applyUpdates)
  qed
qed

lemma nth_applyUpdates_filter:
  "i < length current \<Longrightarrow>
   applyUpdates current us ! i =
   applyUpdates current (filter (\<lambda>u. msg_pair u = pair (current ! i)) us) ! i"
proof (induction us rule: rev_induct)
  case Nil
  show ?case by simp
next
  case (snoc u us)
  let ?mine = "filter (\<lambda>u. msg_pair u = pair (current ! i)) us"
  show ?case
  proof (cases "msg_pair u = pair (current ! i)")
    case True
    have a: "pair (applyUpdates current us ! i) = msg_pair u"
      using True snoc.prems by (simp add: pair_nth_applyUpdates)
    have b: "pair (applyUpdates current ?mine ! i) = msg_pair u"
      using True snoc.prems by (simp add: pair_nth_applyUpdates)
    show ?thesis
      using True snoc a b
      by (simp add: applyUpdates_snoc nth_appendHistoryPoint_same length_applyUpdates)
  next
    case False
    have a: "pair (applyUpdates current us ! i) \<noteq> msg_pair u"
      using False snoc.prems by (simp add: pair_nth_applyUpdates)
    show ?thesis
      using False snoc a
      by (simp add: applyUpdates_snoc nth_appendHistoryPoint_other length_applyUpdates)
  qed
qed

text \<open>
  C1, as amended. For every rates state, every entry of it (at position \<open>i\<close>) and every
  sequence of update messages of which at least one names the entry's pair, the entry's
  history afterwards has at most 40 (\<^const>\<open>MAX_POINTS\<close>) entries and is the last 40 entries
  of its history before, followed by the \<open>(last_update, price)\<close> points of the pair's
  messages in arrival order: the oldest entries are evicted first. When the history before
  is empty, as \<^const>\<open>fromSnapshot\<close> leaves it, or when at least 40 messages named the pair,
  this is exactly the most recent (at most 40) appended points.
\<close>

theorem history_bounded_fifo:
  assumes "i < length current"
    and "filter (\<lambda>u. msg_pair u = pair (current ! i)) us \<noteq> []"
  shows "length (history (applyUpdates current us ! i)) \<le> MAX_POINTS
     \<and> history (applyUpdates current us ! i) =
         keep_last MAX_POINTS (history (current ! i) @
           map point_of (filter (\<lambda>u. msg_pair u = pair (current ! i)) us))
     \<and> (history (current ! i) = []
          \<or> MAX_POINTS \<le> length (filter (\<lambda>u. msg_pair u = pair (current ! i)) us)
        \<longrightarrow> history (applyUpdates current us ! i) =
             keep_last MAX_POINTS
               (map point_of (filter (\<lambda>u. msg_pair u = pair (current ! i)) us)))"
proof -
  let ?mine = "filter (\<lambda>u. msg_pair u = pair (current ! i)) us"
  have eq: "history (applyUpdates current us ! i) =
      keep_last MAX_POINTS (history (current ! i) @ map point_of ?mine)"
    using assms by (simp add: history_applyUpdates)
  have bound: "length (history (applyUpdates current us ! i)) \<le> MAX_POINTS"
    unfolding eq by (simp add: length_keep_last)
  have short: "history (applyUpdates current us ! i) = keep_last MAX_POINTS (map point_of ?mine)"
    if "history (current ! i) = [] \<or> MAX_POINTS \<le> length ?mine"
    using that
  proof
    assume "history (current ! i) = []"
    with eq show ?thesis by simp
  next
    assume "MAX_POINTS \<le> length ?mine"
    then have "keep_last MAX_POINTS (history (current ! i) @ map point_of ?mine)
        = keep_last MAX_POINTS (map point_of ?mine)"
      by (intro keep_last_append_long) simp
    with eq show ?thesis by simp
  qed
  from eq bound short show ?thesis by blast
qed

text \<open>
  The instance of the specification's example: 45 messages for a pair whose history is
  empty leave the last 40 points, in arrival order.
\<close>

theorem history_bounded_fifo_witness:
  "length (history (applyUpdates [unseen ''ETH/USD'']
             (map (\<lambda>k. quote ''ETH/USD'' (real k) ''t'') [0..<45]) ! 0)) \<le> MAX_POINTS
   \<and> history (applyUpdates [unseen ''ETH/USD'']
                (map (\<lambda>k. quote ''ETH/USD'' (real k) ''t'') [0..<45]) ! 0)
     = map (\<lambda>k. \<lparr>timestamp = ''t'', point_price = real k\<rparr>) [5..<45]"
  using history_bounded_fifo [of 0 "[unseen ''ETH/USD'']"
       "map (\<lambda>k. quote ''ETH/USD'' (real k) ''t'') [0..<45]"]
  by (simp add: keep_last_def point_of_def MAX_POINTS_def filter_map comp_def drop_map)

text \<open>
  C1 as stated fails for a state whose entry already holds a history: after one message the
  history is the old entry followed by the new point, not the appended point alone.
\<close>

theorem history_not_only_appended_points:
  "history (applyUpdates
      [\<lparr>pair = ''ETH/USD'', price = None, hourly_avg = None, last_update = None,
        history = [\<lparr>timestamp = ''t0'', point_price = 1\<rparr>]\<rparr>]
      [quote ''ETH/USD'' 2 ''t1''] ! 0)
   \<noteq> keep_last MAX_POINTS (map point_of [quote ''ETH/USD'' 2 ''t1''])"
  by (simp add: applyUpdates_def appendHistoryPoint_def keep_last_def point_of_def MAX_POINTS_def)

text \<open>
  C2. For every rates state and every update message, \<^const>\<open>appendHistoryPoint\<close> keeps the
  number of entries and returns every entry whose pair differs from the message's pair
  unchanged; hence, after any sequence of messages, an entry is what the sub-sequence of
  the messages naming its own pair would have made of it.
\<close>

theorem other_pairs_untouched:
  assumes "i < length current"
  shows "length (appendHistoryPoint current update) = length current
     \<and> (pair (current ! i) \<noteq> msg_pair update
          \<longrightarrow> appendHistoryPoint current update ! i = current ! i)
     \<and> applyUpdates current us ! i =
         applyUpdates current (filter (\<lambda>u. msg_pair u = pair (current ! i)) us) ! i"
  using assms nth_applyUpdates_filter [of i current us]
  by (simp add: length_appendHistoryPoint nth_appendHistoryPoint_other)

theorem other_pairs_untouched_witness:
  "appendHistoryPoint [unseen ''ETH/USD'', unseen ''BTC/USD''] (quote ''ETH/USD'' 1 ''t1'') ! 1
     = unseen ''BTC/USD''
   \<and> applyUpdates [unseen ''ETH/USD'', unseen ''BTC/USD'']
        [quote ''ETH/USD'' 1 ''t1'', quote ''BTC/USD'' 2 ''t2'', quote ''ETH/USD'' 3 ''t3''] ! 1
     = applyUpdates [unseen ''ETH/USD'', unseen ''BTC/USD''] [quote ''BTC/USD'' 2 ''t2''] ! 1"
  using other_pairs_untouched [of 1 "[unseen ''ETH/USD'', unseen ''BTC/USD'']"
      "quote ''ETH/USD'' 1 ''t1''"
      "[quote ''ETH/USD'' 1 ''t1'', quote ''BTC/USD'' 2 ''t2'', quote ''ETH/USD'' 3 ''t3'']"]
  by simp

text \<open>
  C3. For every rates state with an entry (at position \<open>i\<close>) whose pair is the message's pair,
  \<^const>\<open>appendHistoryPoint\<close> sets that entry's price, hourly average and last update to the
  message's values and appends the point \<open>(last_update, price)\<close> at the end of its history
  before trimming to the last 40: the new point is the last entry, and nothing is trimmed
  while the history before held fewer than 40 entries.
\<close>

theorem update_sets_fields_and_appends:
  assumes "i < length current" and "pair (current ! i) = msg_pair update"
  shows "pair (appendHistoryPoint current update ! i) = msg_pair update
     \<and> price (appendHistoryPoint current update ! i) = Some (msg_price update)
     \<and> hourly_avg (appendHistoryPoint current update ! i) = Some (msg_hourly_avg update)
     \<and> last_update (appendHistoryPoint current update ! i) = Some (msg_last_update update)
     \<and> history (appendHistoryPoint current update ! i) =
         keep_last MAX_POINTS (history (current ! i) @ [point_of update])
     \<and> last (history (appendHistoryPoint current update ! i)) = point_of update
     \<and> (length (history (current ! i)) < MAX_POINTS
          \<longrightarrow> history (appendHistoryPoint current update ! i) =
              history (current ! i) @ [point_of update])"
  using assms
  by (simp add: nth_appendHistoryPoint_same keep_last_def point_of_def MAX_POINTS_def)

theorem update_sets_fields_and_appends_witness:
  "price (appendHistoryPoint [unseen ''ETH/USD''] (quote ''ETH/USD'' 100 ''t1'') ! 0) = Some 100
   \<and> last_update (appendHistoryPoint [unseen ''ETH/USD''] (quote ''ETH/USD'' 100 ''t1'') ! 0)
       = Some ''t1''
   \<and> history (appendHistoryPoint [unseen ''ETH/USD''] (quote ''ETH/USD'' 100 ''t1'') ! 0)
       = [\<lparr>timestamp = ''t1'', point_price = 100\<rparr>]"
  using update_sets_fields_and_appends
    [of 0 "[unseen ''ETH/USD'']" "quote ''ETH/USD'' 100 ''t1''"]
  by (simp add: point_of_def keep_last_def MAX_POINTS_def)

text \<open>
  C5, as amended. An update for a pair not present in the rates state is not an error, but
  it is dropped: \<^const>\<open>appendHistoryPoint\<close> never adds or removes an entry (the pairs of the
  state stay the same, in the same order), and it returns the state unchanged when no entry
  has the message's pair.
\<close>

theorem unknown_pair_dropped:
  "map pair (appendHistoryPoint current update) = map pair current
   \<and> (msg_pair update \<notin> set (map pair current)
        \<longrightarrow> appendHistoryPoint current update = current)"
proof -
  have "map pair (appendHistoryPoint current update) = map pair current"
    by (simp add: appendHistoryPoint_def Let_def comp_def)
  moreover have "appendHistoryPoint current update = current"
    if "msg_pair update \<notin> set (map pair current)"
  proof -
    have "\<forall>p \<in> set current. pair p \<noteq> msg_pair update"
      using that by (metis imageI set_map)
    then have "map (\<lambda>p. if pair p \<noteq> msg_pair update then p else f p) current = current" for f
      by (induction current) auto
    then show ?thesis by (simp add: appendHistoryPoint_def Let_def)
  qed
  ultimately show ?thesis by blast
qed

theorem unknown_pair_dropped_witness:
  "appendHistoryPoint [unseen ''BTC/USD''] (quote ''ETH/USD'' 100 ''t1'') = [unseen ''BTC/USD'']"
  using unknown_pair_dropped [of "[unseen ''BTC/USD'']" "quote ''ETH/USD'' 100 ''t1''"]
  by simp

text \<open>
  C5 as stated fails: after an update for a pair the state does not hold, the state holds
  no entry for that pair, whether it was empty or held other pairs.
\<close>

theorem unknown_pair_creates_nothing:
  "appendHistoryPoint [] (quote ''ETH/USD'' 100 ''t1'') = []
   \<and> ''ETH/USD'' \<notin> set (map pair
        (appendHistoryPoint [unseen ''BTC/USD''] (quote ''ETH/USD'' 100 ''t1'')))"
  by (simp add: appendHistoryPoint_def)

section \<open>Properties of \<^const>\<open>fromSnapshot\<close>\<close>

text \<open>
  C9. For every snapshot list, \<^const>\<open>fromSnapshot\<close> returns a list of the same length and
  order; each entry keeps the pair, price, hourly average and last update of the snapshot
  entry at the same position, and each entry's history is the empty list, whatever history
  the snapshot entry carried.
\<close>

theorem fromSnapshot_copies_and_clears:
  "length (fromSnapshot snapshot) = length snapshot
   \<and> map pair (fromSnapshot snapshot) = map pair snapshot
   \<and> map price (fromSnapshot snapshot) = map price snapshot
   \<and> map hourly_avg (fromSnapshot snapshot) = map hourly_avg snapshot
   \<and> map last_update (fromSnapshot snapshot) = map last_update snapshot
   \<and> map history (fromSnapshot snapshot) = replicate (length snapshot) []"
  by (simp add: fromSnapshot_def comp_def map_replicate_const)

theorem fromSnapshot_copies_and_clears_witness:
  "fromSnapshot
     [\<lparr>pair = ''ETH/USD'', price = Some 100, hourly_avg = Some 99, last_update = Some ''t0'',
       history = [\<lparr>timestamp = ''t0'', point_price = 100\<rparr>]\<rparr>,
      unseen ''BTC/USD'']
   = [\<lparr>pair = ''ETH/USD'', price = Some 100, hourly_avg = Some 99, last_update = Some ''t0'',
        history = []\<rparr>,
      unseen ''BTC/USD'']"
  using fromSnapshot_copies_and_clears
    [of "[\<lparr>pair = ''ETH/USD'', price = Some 100, hourly_avg = Some 99,
            last_update = Some ''t0'',
            history = [\<lparr>timestamp = ''t0'', point_price = 100\<rparr>]\<rparr>,
          unseen ''BTC/USD'']"]
  by (simp add: fromSnapshot_def)

section \<open>Properties of the hook\<close>

lemma run_Nil: "run s [] = s"
  by (simp add: run_def)

lemma run_Cons: "run s (e # evs) = run (step s e) evs"
  by (simp add: run_def)

lemma run_append: "run s (xs @ ys) = run (run s xs) ys"
  by (simp add: run_def)

lemma run_snoc: "run s (evs @ [e]) = step (run s evs) e"
  by (simp add: run_def)

lemma settled_effects_snoc:
  "settled_effects k es \<Longrightarrow> e \<noteq> SetRatesFromSnapshot k \<Longrightarrow> settled_effects k (es @ [e])"
  unfolding settled_effects_def
  by (elim exE conjE disjE) (rule_tac x = "tail @ [e]" in exI, simp)+

lemma settled_effects_first:
  "settled_effects k [FetchRatesSnapshot k, SetRatesFromSnapshot k, NewWebSocket k]"
  "settled_effects k [FetchRatesSnapshot k, ConsoleError k ''Failed to fetch initial snapshot:'',
     NewWebSocket k]"
  by (simp_all add: settled_effects_def)

lemma call_shape_other:
  assumes "call_shape k s" and "control_of t k = control_of s k"
    and "call_effects k t = call_effects k s"
  shows "call_shape k t"
  using assms(1) unfolding call_shape_def assms(2) assms(3) .

lemma call_shape_start_call: "call_shape k s \<Longrightarrow> call_shape k (start_call s)"
  by (auto simp: call_shape_def control_of_def call_effects_def start_call_def nth_append
        split: option.splits control.splits if_splits)

lemma call_shape_settled:
  assumes "call_shape k s" and "control_of s j = Some AwaitingSnapshot"
  shows "call_shape k (open_socket j throws (snapshot_settled j r s))"
proof (cases "k = j")
  case True
  with assms have "call_effects j s = [FetchRatesSnapshot j]"
    by (simp add: call_shape_def)
  moreover have "j < length (calls s)"
    using assms(2) by (simp add: control_of_def split: if_splits)
  ultimately show ?thesis
    using True
    by (cases r)
       (auto simp: call_shape_def control_of_def call_effects_def open_socket_def
          snapshot_settled_def Let_def settled_effects_def)
next
  case False
  show ?thesis
  proof (rule call_shape_other [OF assms(1)])
    show "control_of (open_socket j throws (snapshot_settled j r s)) k = control_of s k"
      using False
      by (cases r) (simp_all add: control_of_def open_socket_def snapshot_settled_def Let_def)
    show "call_effects k (open_socket j throws (snapshot_settled j r s)) = call_effects k s"
      using False
      by (cases r) (simp_all add: call_effects_def open_socket_def snapshot_settled_def Let_def)
  qed
qed

lemma call_shape_handler:
  assumes "call_shape k s" and "control_of s j = Some HandlersInstalled"
    and "calls t = calls s" and "effects t = effects s @ es"
    and "\<forall>e \<in> set es. call_of e = j \<and> e \<noteq> SetRatesFromSnapshot j"
  shows "call_shape k t"
proof (cases "k = j")
  case True
  have c: "control_of t j = Some HandlersInstalled"
    using assms(2,3) by (simp add: control_of_def split: if_splits)
  have "settled_effects j (call_effects j s)"
    using assms(1,2) True by (simp add: call_shape_def)
  moreover have "call_effects j t = call_effects j s @ es"
    using assms(4,5) by (simp add: call_effects_def)
  moreover have "settled_effects j (xs @ es)" if "settled_effects j xs" for xs
    using assms(5) that
  proof (induction es arbitrary: xs)
    case Nil
    then show ?case by simp
  next
    case (Cons e es)
    then have "settled_effects j (xs @ [e])" by (simp add: settled_effects_snoc)
    from Cons.IH [OF _ this] Cons.prems(1) show ?case by simp
  qed
  ultimately show ?thesis using True c by (simp add: call_shape_def)
next
  case False
  show ?thesis
  proof (rule call_shape_other [OF assms(1)])
    show "control_of t k = control_of s k" using assms(3) by (simp add: control_of_def)
    have "filter (\<lambda>e. call_of e = k) es = []" using assms(5) False by (auto simp: filter_empty_conv)
    then show "call_effects k t = call_effects k s" using assms(4) by (simp add: call_effects_def)
  qed
qed

lemma call_shape_step: "call_shape k s \<Longrightarrow> call_shape k (step s e)"
proof (cases e)
  case Mount
  assume "call_shape k s"
  then show ?thesis using Mount by (simp add: call_shape_start_call)
next
  case (SnapshotSettled j r throws)
  assume "call_shape k s"
  then show ?thesis using SnapshotSettled by (simp add: call_shape_settled)
next
  case (WsOpen j)
  assume a: "call_shape k s"
  show ?thesis
  proof (cases "control_of s j = Some HandlersInstalled")
    case True
    have "call_shape k (onopen s)"
      by (rule call_shape_handler [OF a True, of _ "[]"]) (simp_all add: onopen_def)
    with True WsOpen show ?thesis by simp
  next
    case False
    with a WsOpen show ?thesis by simp
  qed
next
  case (WsMessage j d)
  assume a: "call_shape k s"
  show ?thesis
  proof (cases "control_of s j = Some HandlersInstalled")
    case True
    have "call_shape k (onmessage j d s)"
    proof (cases d)
      case Unparseable
      show ?thesis
        by (rule call_shape_handler
              [OF a True, of _ "[ConsoleError j ''Failed to parse WebSocket message:'']"])
           (simp_all add: onmessage_def Unparseable)
    next
      case (Parsed msg)
      show ?thesis
        by (rule call_shape_handler [OF a True, of _ "[SetRatesAppend j]"])
           (simp_all add: onmessage_def Parsed)
    qed
    with True WsMessage show ?thesis by simp
  next
    case False
    with a WsMessage show ?thesis by simp
  qed
next
  case (WsError j)
  assume a: "call_shape k s"
  show ?thesis
  proof (cases "control_of s j = Some HandlersInstalled")
    case True
    have "call_shape k (onerror j s)"
      by (rule call_shape_handler [OF a True, of _ "[ConsoleError j ''WebSocket error:'']"])
         (simp_all add: onerror_def)
    with True WsError show ?thesis by simp
  next
    case False
    with a WsError show ?thesis by simp
  qed
next
  case (WsClose j)
  assume a: "call_shape k s"
  show ?thesis
  proof (cases "control_of s j = Some HandlersInstalled")
    case True
    have "call_shape k (onclose s)"
      by (rule call_shape_handler [OF a True, of _ "[]"]) (simp_all add: onclose_def)
    with True WsClose show ?thesis by simp
  next
    case False
    with a WsClose show ?thesis by simp
  qed
next
  case (Cleanup j isOpen)
  assume a: "call_shape k s"
  show ?thesis
  proof (cases "control_of s j = Some HandlersInstalled \<and> isOpen")
    case True
    then have c: "control_of s j = Some HandlersInstalled" by simp
    have "call_shape k (s\<lparr>effects := effects s @ [CloseWebSocket j]\<rparr>)"
      by (rule call_shape_handler [OF a c, of _ "[CloseWebSocket j]"]) simp_all
    with True Cleanup show ?thesis by (simp add: cleanup_def)
  next
    case False
    with a Cleanup show ?thesis by (auto simp: cleanup_def)
  qed
qed

lemma call_shape_run: "call_shape k s \<Longrightarrow> call_shape k (run s evs)"
  unfolding run_def
  by (induction evs arbitrary: s) (simp_all add: call_shape_step)

lemma call_shape_initial: "call_shape k initial"
  by (simp add: call_shape_def control_of_def call_effects_def initial_def)

lemma call_shape_cases:
  "call_shape k s \<Longrightarrow>
     call_effects k s = [] \<or> call_effects k s = [FetchRatesSnapshot k]
     \<or> settled_effects k (call_effects k s)"
  by (auto simp: call_shape_def split: option.splits control.splits)

lemma same_visible_step: "same_visible s t \<Longrightarrow> same_visible (step s e) (step t e)"
  by (cases e)
     (auto simp: same_visible_def control_of_def start_call_def open_socket_def
        snapshot_settled_def onopen_def onmessage_def onerror_def onclose_def cleanup_def
        Let_def split: sum.splits ws_data.splits)

lemma same_visible_run: "same_visible s t \<Longrightarrow> same_visible (run s evs) (run t evs)"
  unfolding run_def
  by (induction evs arbitrary: s t) (simp_all add: same_visible_step)

lemma same_visible_unparseable: "same_visible (step s (WsMessage k Unparseable)) s"
  by (simp add: same_visible_def onmessage_def)

lemma effects_unparseable:
  "effects (step s (WsMessage k Unparseable)) =
     effects s @ (if control_of s k = Some HandlersInstalled
                  then [ConsoleError k ''Failed to parse WebSocket message:''] else [])"
  by (simp add: onmessage_def)

text \<open>
  C7. An incoming stream message that cannot be parsed is dropped, on whichever socket it
  arrives: the rates, the connection status and the error field are what they were (the
  message is no connection failure), and so are the control points of the calls of
  \<^verbatim>\<open>start\<close>; all the handler does is one \<^verbatim>\<open>console.error\<close> call. The events before and after
  it have the effect they have without it.
\<close>

theorem malformed_message_dropped:
  "rates (step s (WsMessage k Unparseable)) = rates s
   \<and> connectionStatus (step s (WsMessage k Unparseable)) = connectionStatus s
   \<and> error (step s (WsMessage k Unparseable)) = error s
   \<and> calls (step s (WsMessage k Unparseable)) = calls s
   \<and> effects (step s (WsMessage k Unparseable)) =
       effects s @ (if control_of s k = Some HandlersInstalled
                    then [ConsoleError k ''Failed to parse WebSocket message:''] else [])
   \<and> same_visible (run s (before @ WsMessage k Unparseable # after)) (run s (before @ after))"
proof -
  have "same_visible (run (step (run s before) (WsMessage k Unparseable)) after)
          (run (run s before) after)"
    by (rule same_visible_run) (rule same_visible_unparseable)
  then have "same_visible (run s (before @ WsMessage k Unparseable # after))
               (run s (before @ after))"
    by (simp add: run_append run_Cons)
  moreover have "same_visible (step s (WsMessage k Unparseable)) s"
    by (rule same_visible_unparseable)
  ultimately show ?thesis
    using effects_unparseable [of s k] by (simp add: same_visible_def)
qed

theorem malformed_message_dropped_witness:
  "rates (step (run initial [Mount, SnapshotSettled 0 (Inr [unseen ''ETH/USD'']) False, WsOpen 0])
            (WsMessage 0 Unparseable)) = [unseen ''ETH/USD'']
   \<and> connectionStatus
        (step (run initial [Mount, SnapshotSettled 0 (Inr [unseen ''ETH/USD'']) False, WsOpen 0])
            (WsMessage 0 Unparseable)) = Connected
   \<and> error (step (run initial [Mount, SnapshotSettled 0 (Inr [unseen ''ETH/USD'']) False, WsOpen 0])
            (WsMessage 0 Unparseable)) = None"
  using malformed_message_dropped
    [of "run initial [Mount, SnapshotSettled 0 (Inr [unseen ''ETH/USD'']) False, WsOpen 0]" 0
        "[]" "[]"]
  by (simp add: run_def initial_def control_of_def start_call_def snapshot_settled_def
        open_socket_def onopen_def fromSnapshot_def Let_def)

text \<open>
  C8. If the initial snapshot fetch fails while a call of \<^verbatim>\<open>start\<close> waits for it, the stream
  is not stopped: the \<^verbatim>\<open>catch\<close> block records \<^verbatim>\<open>'Failed to load initial rates.'\<close> in the error
  field and leaves the rates as they were, and \<^verbatim>\<open>start\<close> goes on to construct the WebSocket.
  Unless that constructor throws, the error field still holds the message, the status is
  \<^verbatim>\<open>'connecting'\<close>, and the handlers are installed: a later message is merged into the rates
  and the socket's opening sets the status to \<^verbatim>\<open>'connected'\<close>.
\<close>

theorem snapshot_failure_keeps_stream:
  assumes "control_of s k = Some AwaitingSnapshot"
  shows "error (snapshot_settled k (Inl err) s) = Some ''Failed to load initial rates.''
     \<and> rates (snapshot_settled k (Inl err) s) = rates s
     \<and> step s (SnapshotSettled k (Inl err) throws)
         = open_socket k throws (snapshot_settled k (Inl err) s)
     \<and> rates (step s (SnapshotSettled k (Inl err) throws)) = rates s
     \<and> effects (step s (SnapshotSettled k (Inl err) throws)) =
         effects s @ ConsoleError k ''Failed to fetch initial snapshot:'' # NewWebSocket k #
           (if throws then [ConsoleError k ''Failed to open WebSocket:''] else [])
     \<and> (\<not> throws \<longrightarrow>
          error (step s (SnapshotSettled k (Inl err) throws))
            = Some ''Failed to load initial rates.''
          \<and> connectionStatus (step s (SnapshotSettled k (Inl err) throws)) = Connecting
          \<and> control_of (step s (SnapshotSettled k (Inl err) throws)) k = Some HandlersInstalled
          \<and> rates (step (step s (SnapshotSettled k (Inl err) throws)) (WsMessage k (Parsed msg)))
              = appendHistoryPoint (rates s) msg
          \<and> connectionStatus (step (step s (SnapshotSettled k (Inl err) throws)) (WsOpen k))
              = Connected)"
proof -
  have "k < length (calls s)"
    using assms by (simp add: control_of_def split: if_splits)
  with assms show ?thesis
    by (simp add: control_of_def open_socket_def snapshot_settled_def Let_def onmessage_def
          onopen_def)
qed

theorem snapshot_failure_keeps_stream_witness:
  "control_of (step initial Mount) 0 = Some AwaitingSnapshot
   \<and> rates (step (step initial Mount) (SnapshotSettled 0 (Inl ''timeout'') False)) = []
   \<and> error (step (step initial Mount) (SnapshotSettled 0 (Inl ''timeout'') False))
       = Some ''Failed to load initial rates.''
   \<and> connectionStatus (step (step initial Mount) (SnapshotSettled 0 (Inl ''timeout'') False))
       = Connecting
   \<and> effects (step (step initial Mount) (SnapshotSettled 0 (Inl ''timeout'') False))
       = [FetchRatesSnapshot 0, ConsoleError 0 ''Failed to fetch initial snapshot:'',
          NewWebSocket 0]"
  using snapshot_failure_keeps_stream
    [of "step initial Mount" 0 "''timeout''" False "quote ''ETH/USD'' 1 ''t1''"]
  by (simp add: initial_def start_call_def control_of_def)

text \<open>
  The effects of a call that is past its \<^verbatim>\<open>await\<close> only grow, and never by a \<^verbatim>\<open>setRates\<close> of a
  snapshot.
\<close>

lemma step_started:
  assumes "started k s"
  shows "started k (step s e)
     \<and> (\<exists>more. call_effects k (step s e) = call_effects k s @ more
           \<and> SetRatesFromSnapshot k \<notin> set more)"
proof -
  have k: "k < length (calls s)"
    using assms by (auto simp: started_def control_of_def split: if_splits)
  show ?thesis
  proof (cases e)
    case Mount
    with assms k show ?thesis
      by (auto simp: started_def control_of_def call_effects_def start_call_def nth_append)
  next
    case (SnapshotSettled j r throws)
    show ?thesis
    proof (cases "control_of s j = Some AwaitingSnapshot")
      case True
      with assms have "j \<noteq> k" by (auto simp: started_def)
      with assms k True SnapshotSettled show ?thesis
        by (cases r)
           (auto simp: started_def control_of_def call_effects_def open_socket_def
              snapshot_settled_def Let_def)
    next
      case False
      with assms SnapshotSettled show ?thesis by simp
    qed
  next
    case (WsOpen j)
    with assms show ?thesis
      by (auto simp: started_def control_of_def call_effects_def onopen_def split: if_splits)
  next
    case (WsMessage j d)
    with assms show ?thesis
      by (cases d)
         (auto simp: started_def control_of_def call_effects_def onmessage_def
            split: if_splits)
  next
    case (WsError j)
    with assms show ?thesis
      by (auto simp: started_def control_of_def call_effects_def onerror_def split: if_splits)
  next
    case (WsClose j)
    with assms show ?thesis
      by (auto simp: started_def control_of_def call_effects_def onclose_def split: if_splits)
  next
    case (Cleanup j isOpen)
    with assms show ?thesis
      by (auto simp: started_def control_of_def call_effects_def cleanup_def split: if_splits)
  qed
qed

lemma run_started:
  "started k s \<Longrightarrow>
     started k (run s evs)
     \<and> (\<exists>more. call_effects k (run s evs) = call_effects k s @ more
           \<and> SetRatesFromSnapshot k \<notin> set more)"
proof (induction evs arbitrary: s)
  case Nil
  then show ?case by (simp add: run_Nil)
next
  case (Cons e evs)
  from step_started [OF Cons.prems, of e] obtain m1 where
    s1: "started k (step s e)" and e1: "call_effects k (step s e) = call_effects k s @ m1"
    and n1: "SetRatesFromSnapshot k \<notin> set m1" by blast
  from Cons.IH [OF s1] obtain m2 where
    s2: "started k (run (step s e) evs)"
    and e2: "call_effects k (run (step s e) evs) = call_effects k (step s e) @ m2"
    and n2: "SetRatesFromSnapshot k \<notin> set m2" by blast
  have "call_effects k (run s (e # evs)) = call_effects k s @ (m1 @ m2)"
    by (simp add: run_Cons e1 e2)
  moreover have "SetRatesFromSnapshot k \<notin> set (m1 @ m2)" using n1 n2 by simp
  ultimately show ?case using s2 by (metis run_Cons)
qed

lemma settle_effects:
  assumes "control_of s k = Some AwaitingSnapshot" and "call_shape k s"
  shows "started k (step s (SnapshotSettled k r throws))
     \<and> call_effects k (step s (SnapshotSettled k r throws)) =
         FetchRatesSnapshot k
         # (case r of Inr snapshot \<Rightarrow> SetRatesFromSnapshot k
                   | Inl err \<Rightarrow> ConsoleError k ''Failed to fetch initial snapshot:'')
         # NewWebSocket k
         # (if throws then [ConsoleError k ''Failed to open WebSocket:''] else [])"
proof -
  have k: "k < length (calls s)"
    using assms(1) by (simp add: control_of_def split: if_splits)
  have "call_effects k s = [FetchRatesSnapshot k]"
    using assms by (simp add: call_shape_def)
  with assms(1) k show ?thesis
    by (cases r)
       (auto simp: started_def control_of_def call_effects_def open_socket_def
          snapshot_settled_def Let_def)
qed

lemma only_first_call_step:
  "only_first_call s \<Longrightarrow> e \<noteq> Mount \<Longrightarrow> only_first_call (step s e)"
  by (cases e)
     (auto simp: only_first_call_def control_of_def open_socket_def snapshot_settled_def
        onopen_def onmessage_def onerror_def onclose_def cleanup_def Let_def
        split: sum.splits ws_data.splits if_splits)

lemma only_first_call_run:
  "only_first_call s \<Longrightarrow> Mount \<notin> set evs \<Longrightarrow> only_first_call (run s evs)"
proof (induction evs arbitrary: s)
  case Nil
  then show ?case by (simp add: run_Nil)
next
  case (Cons e evs)
  have "e \<noteq> Mount" using Cons.prems(2) by auto
  with Cons.prems(1) have "only_first_call (step s e)" by (rule only_first_call_step)
  with Cons show ?case by (simp add: run_Cons)
qed

lemma only_first_call_after_mount: "only_first_call (step initial Mount)"
  by (simp add: only_first_call_def initial_def start_call_def)

text \<open>
  C6, as amended. Each call of the hook's \<^verbatim>\<open>start\<close> routine awaits its snapshot fetch before
  it constructs its WebSocket, so no update from that call's socket is merged before the
  call's fetch has settled, and the call applies a snapshot at most once. In every run of
  the hook the effects of call \<open>k\<close> are none (no such call), or the fetch alone (the call
  waits), or the fetch followed by the \<^verbatim>\<open>setRates\<close> of the snapshot or else the
  \<^verbatim>\<open>console.error\<close> of the failed fetch, then the construction of the socket, then a tail
  with no \<^verbatim>\<open>setRates\<close> of a snapshot. A message for a socket whose handlers are not installed
  changes nothing. When the fetch of a waiting call yields a snapshot, the rates become
  \<^const>\<open>fromSnapshot\<close> of it and, in every continuation, the call has applied it exactly once,
  before its socket existed; when the fetch fails, the rates stay as they are, the call
  never applies a snapshot, and it constructs its socket all the same. When the mount
  effect runs once, the effects of call 0 are all the effects of the hook; each further run
  of the effect is a further call.
\<close>

theorem snapshot_once_per_call:
  "(call_effects k (run initial evs) = []
      \<or> call_effects k (run initial evs) = [FetchRatesSnapshot k]
      \<or> settled_effects k (call_effects k (run initial evs)))
   \<and> (control_of s k \<noteq> Some HandlersInstalled \<longrightarrow> step s (WsMessage k d) = s)
   \<and> (control_of (run initial evs) k = Some AwaitingSnapshot \<longrightarrow>
        rates (run initial (evs @ [SnapshotSettled k (Inr snapshot) throws]))
          = fromSnapshot snapshot
        \<and> (\<exists>tail. call_effects k
                    (run initial (evs @ SnapshotSettled k (Inr snapshot) throws # later))
                  = FetchRatesSnapshot k # SetRatesFromSnapshot k # NewWebSocket k # tail
                  \<and> SetRatesFromSnapshot k \<notin> set tail)
        \<and> rates (run initial (evs @ [SnapshotSettled k (Inl err) throws]))
            = rates (run initial evs)
        \<and> (\<exists>tail. call_effects k
                    (run initial (evs @ SnapshotSettled k (Inl err) throws # later))
                  = FetchRatesSnapshot k # ConsoleError k ''Failed to fetch initial snapshot:''
                      # NewWebSocket k # tail
                  \<and> SetRatesFromSnapshot k \<notin> set tail))
   \<and> (Mount \<notin> set later \<longrightarrow>
        call_effects 0 (run initial (Mount # later)) = effects (run initial (Mount # later)))"
proof -
  let ?s = "run initial evs"
  have shape: "call_shape k ?s"
    by (rule call_shape_run) (rule call_shape_initial)
  have c1: "call_effects k ?s = [] \<or> call_effects k ?s = [FetchRatesSnapshot k]
      \<or> settled_effects k (call_effects k ?s)"
    by (rule call_shape_cases [OF shape])
  have c2: "control_of s k \<noteq> Some HandlersInstalled \<longrightarrow> step s (WsMessage k d) = s"
    by simp
  have c3: "rates (run initial (evs @ [SnapshotSettled k (Inr snapshot) throws]))
          = fromSnapshot snapshot
        \<and> (\<exists>tail. call_effects k
                    (run initial (evs @ SnapshotSettled k (Inr snapshot) throws # later))
                  = FetchRatesSnapshot k # SetRatesFromSnapshot k # NewWebSocket k # tail
                  \<and> SetRatesFromSnapshot k \<notin> set tail)
        \<and> rates (run initial (evs @ [SnapshotSettled k (Inl err) throws])) = rates ?s
        \<and> (\<exists>tail. call_effects k
                    (run initial (evs @ SnapshotSettled k (Inl err) throws # later))
                  = FetchRatesSnapshot k # ConsoleError k ''Failed to fetch initial snapshot:''
                      # NewWebSocket k # tail
                  \<and> SetRatesFromSnapshot k \<notin> set tail)"
    if aw: "control_of ?s k = Some AwaitingSnapshot"
  proof -
    have tails: "\<exists>tail. call_effects k (run ?s (SnapshotSettled k r throws # later))
          = FetchRatesSnapshot k
            # (case r of Inr snapshot \<Rightarrow> SetRatesFromSnapshot k
                   | Inl err \<Rightarrow> ConsoleError k ''Failed to fetch initial snapshot:'')
            # NewWebSocket k # tail
          \<and> SetRatesFromSnapshot k \<notin> set tail" for r
    proof -
      let ?s1 = "step ?s (SnapshotSettled k r throws)"
      from settle_effects [OF aw shape, of r throws] have
        st: "started k ?s1"
        and eff: "call_effects k ?s1 =
           FetchRatesSnapshot k
           # (case r of Inr snapshot \<Rightarrow> SetRatesFromSnapshot k
                   | Inl err \<Rightarrow> ConsoleError k ''Failed to fetch initial snapshot:'')
           # NewWebSocket k
           # (if throws then [ConsoleError k ''Failed to open WebSocket:''] else [])"
        by simp_all
      from run_started [OF st, of later] obtain more where
        m: "call_effects k (run ?s1 later) = call_effects k ?s1 @ more"
        and nm: "SetRatesFromSnapshot k \<notin> set more" by blast
      have "call_effects k (run ?s (SnapshotSettled k r throws # later))
          = FetchRatesSnapshot k
            # (case r of Inr snapshot \<Rightarrow> SetRatesFromSnapshot k
                   | Inl err \<Rightarrow> ConsoleError k ''Failed to fetch initial snapshot:'')
            # NewWebSocket k
            # ((if throws then [ConsoleError k ''Failed to open WebSocket:''] else []) @ more)"
        unfolding run_Cons m eff by simp
      moreover have "SetRatesFromSnapshot k
          \<notin> set ((if throws then [ConsoleError k ''Failed to open WebSocket:''] else []) @ more)"
        using nm by simp
      ultimately show ?thesis by blast
    qed
    have k: "k < length (calls ?s)"
      using aw by (simp add: control_of_def split: if_splits)
    have r1: "rates (run initial (evs @ [SnapshotSettled k (Inr snapshot) throws]))
        = fromSnapshot snapshot"
      using aw by (simp add: run_snoc open_socket_def snapshot_settled_def Let_def)
    have r2: "rates (run initial (evs @ [SnapshotSettled k (Inl err) throws])) = rates ?s"
      using aw by (simp add: run_snoc open_socket_def snapshot_settled_def Let_def)
    have split: "run initial (evs @ e # later) = run ?s (e # later)" for e
      by (rule run_append)
    have t1: "\<exists>tail. call_effects k
                    (run initial (evs @ SnapshotSettled k (Inr snapshot) throws # later))
                  = FetchRatesSnapshot k # SetRatesFromSnapshot k # NewWebSocket k # tail
                  \<and> SetRatesFromSnapshot k \<notin> set tail"
      unfolding split using tails [of "Inr snapshot"] by simp
    have t2: "\<exists>tail. call_effects k
                    (run initial (evs @ SnapshotSettled k (Inl err) throws # later))
                  = FetchRatesSnapshot k # ConsoleError k ''Failed to fetch initial snapshot:''
                      # NewWebSocket k # tail
                  \<and> SetRatesFromSnapshot k \<notin> set tail"
      unfolding split using tails [of "Inl err"] by simp
    from r1 t1 r2 t2 show ?thesis by blast
  qed
  have c4: "call_effects 0 (run initial (Mount # later)) = effects (run initial (Mount # later))"
    if "Mount \<notin> set later"
  proof -
    have "only_first_call (run (step initial Mount) later)"
      using only_first_call_after_mount that by (rule only_first_call_run)
    then show ?thesis
      by (simp add: run_Cons only_first_call_def call_effects_def)
  qed
  from c1 c2 c3 c4 show ?thesis by blast
qed

text \<open>
  One run of the effect, a message while the fetch is pending, the snapshot, the socket's
  opening and a message.
\<close>

theorem snapshot_once_per_call_witness:
  "rates (run initial ([Mount, WsMessage 0 (Parsed (quote ''ETH/USD'' 1 ''t0''))]
            @ [SnapshotSettled 0 (Inr [unseen ''ETH/USD'']) False]))
       = [unseen ''ETH/USD'']
   \<and> effects (run initial (Mount #
            [WsMessage 0 (Parsed (quote ''ETH/USD'' 1 ''t0'')),
             SnapshotSettled 0 (Inr [unseen ''ETH/USD'']) False,
             WsOpen 0, WsMessage 0 (Parsed (quote ''ETH/USD'' 2 ''t1''))]))
       = [FetchRatesSnapshot 0, SetRatesFromSnapshot 0, NewWebSocket 0, SetRatesAppend 0]"
  using snapshot_once_per_call
    [of 0 "[Mount, WsMessage 0 (Parsed (quote ''ETH/USD'' 1 ''t0''))]"
        "step initial Mount" "Parsed (quote ''ETH/USD'' 1 ''t0'')"
        "[unseen ''ETH/USD'']" False
        "[WsMessage 0 (Parsed (quote ''ETH/USD'' 1 ''t0'')),
             SnapshotSettled 0 (Inr [unseen ''ETH/USD'']) False,
             WsOpen 0, WsMessage 0 (Parsed (quote ''ETH/USD'' 2 ''t1''))]"
        "''timeout''"]
  by (simp add: run_def initial_def control_of_def start_call_def snapshot_settled_def
        open_socket_def onopen_def onmessage_def fromSnapshot_def appendHistoryPoint_def
        Let_def)

text \<open>
  C6 as stated fails in two ways. When the fetch fails, no snapshot is applied, yet the
  socket's message is handled. When the effect runs twice (mount, cleanup, mount, as React's
  \<^verbatim>\<open>StrictMode\<close> does), both calls apply a snapshot, the second after an update from the first
  call's socket was merged.
\<close>

theorem snapshot_skipped_or_repeated:
  "effects (run initial
      [Mount, SnapshotSettled 0 (Inl ''timeout'') False,
       WsMessage 0 (Parsed (quote ''ETH/USD'' 1 ''t1''))])
     = [FetchRatesSnapshot 0, ConsoleError 0 ''Failed to fetch initial snapshot:'',
        NewWebSocket 0, SetRatesAppend 0]
   \<and> effects (run initial
      [Mount, Cleanup 0 False, Mount, SnapshotSettled 0 (Inr [unseen ''ETH/USD'']) False,
       WsMessage 0 (Parsed (quote ''ETH/USD'' 1 ''t1'')),
       SnapshotSettled 1 (Inr [unseen ''ETH/USD'']) False])
     = [FetchRatesSnapshot 0, FetchRatesSnapshot 1, SetRatesFromSnapshot 0, NewWebSocket 0,
        SetRatesAppend 0, SetRatesFromSnapshot 1, NewWebSocket 1]"
  by (simp add: run_def initial_def control_of_def start_call_def snapshot_settled_def
        open_socket_def onmessage_def cleanup_def Let_def)

section \<open>Properties of \<^const>\<open>MiniChart\<close>\<close>

lemma OVERFLOW_MAX_VALUE: "OVERFLOW = MAX_VALUE + 2 ^ 970"
  by (simp add: OVERFLOW_def MAX_VALUE_def)

lemma two_970_large: "(1000::real) < 2 ^ 970"
proof -
  have "(1000::real) < 2 ^ 10" by simp
  also have "\<dots> \<le> 2 ^ 970" by (rule power_increasing) simp_all
  finally show ?thesis .
qed

lemma MAX_VALUE_pos: "0 < MAX_VALUE"
proof -
  have "(2::real) ^ 971 < 2 ^ 1024" by (rule power_strict_increasing) simp_all
  then show ?thesis by (simp add: MAX_VALUE_def)
qed

lemma OVERFLOW_large: "1000 < OVERFLOW" and OVERFLOW_above: "MAX_VALUE + 1000 < OVERFLOW"
  using two_970_large MAX_VALUE_pos by (simp_all add: OVERFLOW_MAX_VALUE)

lemma to_double_in_range: "- OVERFLOW < r \<Longrightarrow> r < OVERFLOW \<Longrightarrow> to_double r = Num r"
  by (simp add: to_double_def)

lemma js_or_one: "js_or a (Num 1) \<noteq> Num 0 \<and> js_or a (Num 1) \<noteq> NaN"
  by (cases a) (simp_all add: js_or_def)

lemma chart_range_nonzero: "chart_range prices \<noteq> Num 0 \<and> chart_range prices \<noteq> NaN"
  unfolding chart_range_def by (rule js_or_one)

lemma foldl_js_min_Num: "foldl js_min (Num a) (map Num xs) = Num (fold min xs a)"
  by (induction xs arbitrary: a) (simp_all add: min.commute)

lemma foldl_js_max_Num: "foldl js_max (Num a) (map Num xs) = Num (fold max xs a)"
  by (induction xs arbitrary: a) (simp_all add: max.commute)

lemma Math_min_Num: "xs \<noteq> [] \<Longrightarrow> Math_min (map Num xs) = Num (Min (set xs))"
proof (cases xs)
  case Nil
  assume "xs \<noteq> []"
  with Nil show ?thesis by simp
next
  case (Cons x ys)
  have "Math_min (map Num xs) = Num (fold min ys x)"
    by (simp add: Cons Math_min_def foldl_js_min_Num)
  also have "fold min ys x = Min (set xs)"
    unfolding Cons by (rule Min.set_eq_fold [symmetric])
  finally show ?thesis .
qed

lemma Math_max_Num: "xs \<noteq> [] \<Longrightarrow> Math_max (map Num xs) = Num (Max (set xs))"
proof (cases xs)
  case Nil
  assume "xs \<noteq> []"
  with Nil show ?thesis by simp
next
  case (Cons x ys)
  have "Math_max (map Num xs) = Num (fold max ys x)"
    by (simp add: Cons Math_max_def foldl_js_max_Num)
  also have "fold max ys x = Max (set xs)"
    unfolding Cons by (rule Max.set_eq_fold [symmetric])
  finally show ?thesis .
qed

lemma js_sub_Num: "- OVERFLOW < a - b \<Longrightarrow> a - b < OVERFLOW \<Longrightarrow> js_sub (Num a) (Num b) = Num (a - b)"
  by (simp add: js_sub_def to_double_in_range)

lemma js_mul_Num: "- OVERFLOW < a * b \<Longrightarrow> a * b < OVERFLOW \<Longrightarrow> js_mul (Num a) (Num b) = Num (a * b)"
  by (simp add: to_double_in_range)

lemma js_div_Num:
  "b \<noteq> 0 \<Longrightarrow> - OVERFLOW < a / b \<Longrightarrow> a / b < OVERFLOW \<Longrightarrow> js_div (Num a) (Num b) = Num (a / b)"
  by (simp add: to_double_in_range)

text \<open>
  The \<open>x\<close> coordinate is a finite number for every index below the number of points.
\<close>

lemma x_coordinate:
  assumes "i < n"
  shows "js_mul (Num (real i))
           (if n > 1 then js_div (Num width) (Num (real (n - 1))) else Num width)
         = Num (real i * (if n > 1 then width / real (n - 1) else width))"
proof (cases "n > 1")
  case True
  have pos: "0 < real (n - 1)" using True by simp
  have s: "0 \<le> width / real (n - 1)" "width / real (n - 1) \<le> 260"
    using True by (simp_all add: width_def field_simps)
  have d: "js_div (Num width) (Num (real (n - 1))) = Num (width / real (n - 1))"
    using pos s OVERFLOW_large by (intro js_div_Num) simp_all
  have "real i \<le> real (n - 1)" using assms by simp
  then have "real i * (width / real (n - 1)) \<le> real (n - 1) * (width / real (n - 1))"
    using s(1) by (rule mult_right_mono)
  also have "\<dots> = width" using pos by simp
  finally have up: "real i * (width / real (n - 1)) \<le> 260" by (simp add: width_def)
  have lo: "0 \<le> real i * (width / real (n - 1))"
    using s(1) by (intro mult_nonneg_nonneg) simp_all
  have "js_mul (Num (real i)) (Num (width / real (n - 1)))
      = Num (real i * (width / real (n - 1)))"
    using lo up OVERFLOW_large by (intro js_mul_Num) simp_all
  with True d show ?thesis by simp
next
  case False
  with assms have "i = 0" by simp
  with False OVERFLOW_large show ?thesis by (simp add: to_double_in_range)
qed

text \<open>
  The \<open>y\<close> coordinate is a finite number when the price's distance \<open>q\<close> from the least price
  is at most the (finite, positive) range \<open>r\<close>.
\<close>

lemma scaled_to_height:
  assumes "0 \<le> t" and "t \<le> 1"
  shows "js_sub (Num height) (js_mul (Num t) (Num height)) = Num (height - t * height)"
proof -
  have "t * height \<le> 1 * height" using assms(2) by (intro mult_right_mono) (simp_all add: height_def)
  then have up: "t * height \<le> 60" by (simp add: height_def)
  have lo: "0 \<le> t * height" using assms(1) by (intro mult_nonneg_nonneg) (simp_all add: height_def)
  have mul: "js_mul (Num t) (Num height) = Num (t * height)"
  proof (rule js_mul_Num)
    show "- OVERFLOW < t * height" using lo OVERFLOW_large by linarith
    show "t * height < OVERFLOW" using up OVERFLOW_large by linarith
  qed
  have "js_sub (Num height) (Num (t * height)) = Num (height - t * height)"
  proof (rule js_sub_Num)
    show "- OVERFLOW < height - t * height" using up OVERFLOW_large by (simp add: height_def)
    show "height - t * height < OVERFLOW" using lo OVERFLOW_large by (simp add: height_def)
  qed
  with mul show ?thesis by simp
qed

lemma y_coordinate:
  assumes "0 \<le> q" and "q \<le> r" and "0 < r"
  shows "js_sub (Num height) (js_mul (js_div (Num q) (Num r)) (Num height))
         = Num (height - q / r * height)"
proof -
  have q: "0 \<le> q / r" "q / r \<le> 1" using assms by simp_all
  have d: "js_div (Num q) (Num r) = Num (q / r)"
  proof (rule js_div_Num)
    show "r \<noteq> 0" using assms(3) by simp
    show "- OVERFLOW < q / r" using q(1) OVERFLOW_large by linarith
    show "q / r < OVERFLOW" using q(2) OVERFLOW_large by linarith
  qed
  show ?thesis unfolding d by (rule scaled_to_height [OF q])
qed

lemma chart_min_Num: "xs \<noteq> [] \<Longrightarrow> chart_min (map Num xs) = Num (Min (set xs))"
  by (simp add: chart_min_def Math_min_Num del: set_map)

lemma chart_max_Num:
  "xs \<noteq> [] \<Longrightarrow>
     chart_max (map Num xs) = Num (if Max (set xs) = 0 then 1 else Max (set xs))"
  by (simp add: chart_max_def Math_max_Num js_or_def del: set_map)

lemma chart_of_finite_prices:
  assumes ne: "points \<noteq> []"
    and fin: "\<forall>p \<in> set points. \<bar>point_price p\<bar> \<le> MAX_VALUE"
    and spread: "Max (set (map point_price points)) - Min (set (map point_price points)) < OVERFLOW"
  shows "\<exists>r. r \<noteq> 0
      \<and> chart_range (map (\<lambda>p. Num (point_price p)) points) = Num r
      \<and> MiniChart points =
          Polyline (map (\<lambda>(index, p).
            (Num (real index *
                    (if length points > 1 then width / real (length points - 1) else width)),
             Num (height -
                    (point_price p - Min (set (map point_price points))) / r * height)))
            (enumerate 0 points))"
proof -
  let ?ps = "map point_price points"
  let ?m = "Min (set ?ps)" and ?M = "Max (set ?ps)"
  let ?M' = "if ?M = 0 then 1 else ?M"
  let ?d = "?M' - ?m"
  let ?r = "if ?d = 0 then 1 else ?d"
  have ps: "?ps \<noteq> []" "finite (set ?ps)" "set ?ps \<noteq> {}" using ne by simp_all
  have prices: "map (\<lambda>p. Num (point_price p)) points = map Num ?ps" by simp
  have mM: "?m \<le> ?M" using ps by simp
  have "?m \<in> set ?ps" using ps(2,3) by (rule Min_in)
  then have mfin: "\<bar>?m\<bar> \<le> MAX_VALUE" using fin by auto
  have bounds: "?m \<le> point_price p \<and> point_price p \<le> ?M" if "p \<in> set points" for p
    using that ps by simp
  have M': "?M \<le> ?M'" by simp
  have d0: "0 \<le> ?d" using mM by (simp split: if_splits)
  have d1: "?d < OVERFLOW"
  proof (cases "?M = 0")
    case True
    have "1 - ?m \<le> 1 + MAX_VALUE" using mfin by simp
    also have "\<dots> < OVERFLOW" using OVERFLOW_above by simp
    finally show ?thesis using True by simp
  next
    case False
    with spread show ?thesis by simp
  qed
  have cmin: "chart_min (map Num ?ps) = Num ?m"
    by (rule chart_min_Num [OF ps(1)])
  have cmax: "chart_max (map Num ?ps) = Num ?M'"
    by (rule chart_max_Num [OF ps(1)])
  have "js_sub (Num ?M') (Num ?m) = Num ?d"
    using d0 d1 OVERFLOW_large by (intro js_sub_Num) simp_all
  then have crange: "chart_range (map Num ?ps) = Num ?r"
    unfolding chart_range_def cmin cmax by (simp add: js_or_def)
  have rpos: "0 < ?r" using d0 by (simp split: if_splits)
  have y: "js_sub (Num height)
             (js_mul (js_div (js_sub (Num (point_price p)) (Num ?m)) (Num ?r)) (Num height))
           = Num (height - (point_price p - ?m) / ?r * height)"
    if "p \<in> set points" for p
  proof -
    let ?q = "point_price p - ?m"
    have q0: "0 \<le> ?q" and qM: "?q \<le> ?M - ?m" using bounds [OF that] by simp_all
    have qd: "?q \<le> ?d" using qM M' by linarith
    have qO: "?q < OVERFLOW" using qd d1 by linarith
    have qr: "?q \<le> ?r"
    proof (cases "?d = 0")
      case True
      with qd show ?thesis by simp
    next
      case False
      with qd show ?thesis by simp
    qed
    have "js_sub (Num (point_price p)) (Num ?m) = Num ?q"
      using q0 qO OVERFLOW_large by (intro js_sub_Num) simp_all
    with y_coordinate [OF q0 qr rpos] show ?thesis by simp
  qed
  have "map (\<lambda>(index, p).
            (js_mul (Num (real index))
               (if length points > 1 then js_div (Num width) (Num (real (length points - 1)))
                else Num width),
             js_sub (Num height)
               (js_mul (js_div (js_sub (Num (point_price p)) (Num ?m)) (Num ?r)) (Num height))))
          (enumerate 0 points)
      = map (\<lambda>(index, p).
            (Num (real index *
                    (if length points > 1 then width / real (length points - 1) else width)),
             Num (height - (point_price p - ?m) / ?r * height)))
          (enumerate 0 points)"
  proof (rule map_cong [OF refl])
    fix z assume z: "z \<in> set (enumerate 0 points)"
    obtain i p where ip: "z = (i, p)" by (cases z)
    with z have i: "i < length points" and p: "p \<in> set points"
      by (auto simp: in_set_enumerate_eq)
    show "(case z of (index, p) \<Rightarrow>
            (js_mul (Num (real index))
               (if length points > 1 then js_div (Num width) (Num (real (length points - 1)))
                else Num width),
             js_sub (Num height)
               (js_mul (js_div (js_sub (Num (point_price p)) (Num ?m)) (Num ?r)) (Num height))))
        = (case z of (index, p) \<Rightarrow>
            (Num (real index *
                    (if length points > 1 then width / real (length points - 1) else width)),
             Num (height - (point_price p - ?m) / ?r * height)))"
      unfolding ip prod.case using x_coordinate [OF i] y [OF p] by simp
  qed
  then have "MiniChart points =
          Polyline (map (\<lambda>(index, p).
            (Num (real index *
                    (if length points > 1 then width / real (length points - 1) else width)),
             Num (height - (point_price p - ?m) / ?r * height)))
            (enumerate 0 points))"
    using ne unfolding MiniChart_def Let_def prices cmin crange by simp
  moreover have "?r \<noteq> 0" using rpos by simp
  moreover note crange [folded prices]
  ultimately show ?thesis by blast
qed

lemma MAX_VALUE_large: "1000 < MAX_VALUE"
proof -
  have "(2::real) ^ 971 + 2 ^ 971 = 2 ^ 972" by simp
  moreover have "(2::real) ^ 972 \<le> 2 ^ 1024" by (rule power_increasing) simp_all
  moreover have "(1000::real) < 2 ^ 971"
  proof -
    have "(1000::real) < 2 ^ 10" by simp
    also have "\<dots> \<le> 2 ^ 971" by (rule power_increasing) simp_all
    finally show ?thesis .
  qed
  ultimately show ?thesis unfolding MAX_VALUE_def by linarith
qed

lemma chart_range_flat:
  assumes "xs \<noteq> []" and "Max (set xs) = Min (set xs)"
  shows "chart_range (map Num xs) = Num 1"
proof -
  let ?M = "Max (set xs)"
  have "js_sub (Num (if ?M = 0 then 1 else ?M)) (Num ?M) = Num (if ?M = 0 then 1 else 0)"
    using OVERFLOW_large by (simp add: js_sub_def to_double_in_range)
  then show ?thesis
    unfolding chart_range_def chart_min_Num [OF assms(1)] chart_max_Num [OF assms(1)]
      assms(2) [symmetric]
    by (simp add: js_or_def)
qed



text \<open>
  When the spread overflows, \<^verbatim>\<open>range\<close> is \<^verbatim>\<open>Infinity\<close> and the \<open>y\<close> coordinate of the largest
  price is \<^verbatim>\<open>Infinity / Infinity\<close>.
\<close>

lemma chart_of_overflowing_spread:
  assumes "0 < B" and "OVERFLOW \<le> B + B"
  shows "MiniChart [\<lparr>timestamp = t0, point_price = - B\<rparr>, \<lparr>timestamp = t1, point_price = B\<rparr>]
     = Polyline [(Num 0, Num 60), (Num 260, NaN)]"
proof -
  have mm: "min (- B) B = - B" "max (- B) B = B"
    using assms(1) by (simp_all add: min_def max_def)
  have over: "to_double (B + B) = PosInfinity" "to_double (2 * B) = PosInfinity"
    using assms(2) by (simp_all add: to_double_def)
  have small: "to_double 0 = Num 0" "to_double 260 = Num 260" "to_double 60 = Num 60"
    using OVERFLOW_large by (simp_all add: to_double_in_range)
  have cmin: "chart_min [Num (- B), Num B] = Num (- B)"
    by (simp add: chart_min_def Math_min_def mm)
  have cmax: "chart_max [Num (- B), Num B] = Num B"
    using assms(1) by (simp add: chart_max_def Math_max_def mm js_or_def)
  have range: "chart_range [Num (- B), Num B] = PosInfinity"
    unfolding chart_range_def cmin cmax by (simp add: js_or_def js_sub_def over)
  show ?thesis
    unfolding MiniChart_def
    by (simp add: Let_def range cmin js_sub_def over small width_def height_def
          enumerate_eq_zip)
qed


section \<open>Properties of the backend's pair state store\<close>

lemma apply_ticks_Nil: "apply_ticks store [] = store"
  by (simp add: apply_ticks_def)

lemma apply_ticks_Cons: "apply_ticks store (t # ts) = apply_ticks (apply_tick store t) ts"
  by (simp add: apply_ticks_def)

text \<open>A tick that is accepted and continues the pair's bucket adds to the accumulator.\<close>

lemma apply_tick_continue:
  assumes "store (tick_pair t) = Some st" and "hour_started_at st = Some b"
    and "tp_last_update st = Some lu" and "0 < tick_price t" and "lu \<le> observed_at t"
    and "b \<le> observed_at t" and "observed_at t - b < HOUR"
  shows "\<exists>st'. apply_tick store t (tick_pair t) = Some st'
      \<and> sum_of_prices st' = sum_of_prices st + tick_price t
      \<and> tick_count st' = Suc (tick_count st)
      \<and> hour_started_at st' = Some b
      \<and> tp_last_update st' = Some (observed_at t)
      \<and> hourly_average st' = Some (sum_of_prices st' / real (tick_count st'))"
  using assms
  by (simp add: apply_tick_def tick_rejected_def continues_bucket_def Let_def)

text \<open>A tick that is accepted and starts a bucket makes the accumulator a bucket of one.\<close>

lemma apply_tick_first:
  assumes "opens_bucket store t" and "0 < tick_price t"
  shows "\<exists>st'. apply_tick store t (tick_pair t) = Some st'
      \<and> sum_of_prices st' = tick_price t
      \<and> tick_count st' = 1
      \<and> hour_started_at st' = Some (observed_at t)
      \<and> tp_last_update st' = Some (observed_at t)
      \<and> hourly_average st' = Some (tick_price t)"
  using assms
  by (auto simp: opens_bucket_def apply_tick_def tick_rejected_def fresh_pair_def Let_def
        split: option.splits)

lemma apply_ticks_in_bucket:
  assumes "store p = Some st" and "hour_started_at st = Some b"
    and "tp_last_update st = Some lu"
    and "\<forall>t \<in> set ts. tick_pair t = p \<and> 0 < tick_price t \<and> lu \<le> observed_at t
           \<and> b \<le> observed_at t \<and> observed_at t - b < HOUR"
    and "sorted_wrt (<) (map observed_at ts)"
  shows "\<exists>st'. apply_ticks store ts p = Some st'
      \<and> sum_of_prices st' = sum_of_prices st + sum_list (map tick_price ts)
      \<and> tick_count st' = tick_count st + length ts
      \<and> hour_started_at st' = Some b
      \<and> (ts \<noteq> [] \<longrightarrow> hourly_average st' = Some (sum_of_prices st' / real (tick_count st')))"
  using assms
proof (induction ts arbitrary: store st lu)
  case Nil
  then show ?case by (simp add: apply_ticks_Nil)
next
  case (Cons t ts)
  have tp: "tick_pair t = p" using Cons.prems(4) by simp
  have "\<exists>st'. apply_tick store t (tick_pair t) = Some st'
      \<and> sum_of_prices st' = sum_of_prices st + tick_price t
      \<and> tick_count st' = Suc (tick_count st)
      \<and> hour_started_at st' = Some b
      \<and> tp_last_update st' = Some (observed_at t)
      \<and> hourly_average st' = Some (sum_of_prices st' / real (tick_count st'))"
    using Cons.prems tp by (intro apply_tick_continue [of store t st b lu]) simp_all
  then obtain st1 where
    a1: "apply_tick store t p = Some st1"
    and s1: "sum_of_prices st1 = sum_of_prices st + tick_price t"
    and c1: "tick_count st1 = Suc (tick_count st)"
    and b1: "hour_started_at st1 = Some b"
    and l1: "tp_last_update st1 = Some (observed_at t)"
    and h1: "hourly_average st1 = Some (sum_of_prices st1 / real (tick_count st1))"
    using tp by auto
  have rest: "\<forall>u \<in> set ts. tick_pair u = p \<and> 0 < tick_price u
           \<and> observed_at t \<le> observed_at u
           \<and> b \<le> observed_at u \<and> observed_at u - b < HOUR"
    using Cons.prems(4,5) by auto
  have sorted: "sorted_wrt (<) (map observed_at ts)" using Cons.prems(5) by simp
  from Cons.IH [of "apply_tick store t" st1 "observed_at t", OF a1 b1 l1 rest sorted]
  obtain st2 where
    a2: "apply_ticks (apply_tick store t) ts p = Some st2"
    and s2: "sum_of_prices st2 = sum_of_prices st1 + sum_list (map tick_price ts)"
    and c2: "tick_count st2 = tick_count st1 + length ts"
    and b2: "hour_started_at st2 = Some b"
    and h2: "ts \<noteq> [] \<longrightarrow> hourly_average st2 = Some (sum_of_prices st2 / real (tick_count st2))"
    by blast
  have h2': "hourly_average st2 = Some (sum_of_prices st2 / real (tick_count st2))"
  proof (cases ts)
    case Nil
    with a1 a2 have "st2 = st1" by (simp add: apply_ticks_Nil)
    with h1 show ?thesis by simp
  next
    case (Cons u us)
    with h2 show ?thesis by simp
  qed
  show ?case
    using a2 s2 c2 b2 h2' s1 c1 by (simp add: apply_ticks_Cons)
qed

lemma mean_of_all_ticks:
  assumes ne: "ticks \<noteq> []"
    and first: "opens_bucket store (hd ticks)"
    and ok: "\<forall>t \<in> set ticks. tick_pair t = p \<and> 0 < tick_price t
               \<and> observed_at t - observed_at (hd ticks) < HOUR"
    and inc: "sorted_wrt (<) (map observed_at ticks)"
  shows "\<exists>st'. apply_ticks store ticks p = Some st'
      \<and> hourly_average st' = Some (sum_list (map tick_price ticks) / real (length ticks))"
proof -
  from ne obtain t ts where ticks: "ticks = t # ts" by (cases ticks) auto
  have tp: "tick_pair t = p" and pos: "0 < tick_price t" using ok ticks by simp_all
  have "opens_bucket store t" using first ticks by simp
  from apply_tick_first [OF this pos] tp obtain st1 where
    a1: "apply_tick store t p = Some st1"
    and s1: "sum_of_prices st1 = tick_price t"
    and c1: "tick_count st1 = 1"
    and b1: "hour_started_at st1 = Some (observed_at t)"
    and l1: "tp_last_update st1 = Some (observed_at t)"
    and h1: "hourly_average st1 = Some (tick_price t)"
    by auto
  have rest: "\<forall>u \<in> set ts. tick_pair u = p \<and> 0 < tick_price u
           \<and> observed_at t \<le> observed_at u
           \<and> observed_at t \<le> observed_at u \<and> observed_at u - observed_at t < HOUR"
    using ok inc ticks by auto
  have sorted: "sorted_wrt (<) (map observed_at ts)" using inc ticks by simp
  from apply_ticks_in_bucket
         [of "apply_tick store t" p st1 "observed_at t" "observed_at t" ts,
          OF a1 b1 l1 rest sorted]
  obtain st2 where
    a2: "apply_ticks (apply_tick store t) ts p = Some st2"
    and s2: "sum_of_prices st2 = sum_of_prices st1 + sum_list (map tick_price ts)"
    and c2: "tick_count st2 = tick_count st1 + length ts"
    and h2: "ts \<noteq> [] \<longrightarrow> hourly_average st2 = Some (sum_of_prices st2 / real (tick_count st2))"
    by blast
  have "hourly_average st2 = Some (sum_list (map tick_price ticks) / real (length ticks))"
  proof (cases ts)
    case Nil
    with a1 a2 have "st2 = st1" by (simp add: apply_ticks_Nil)
    with h1 Nil ticks show ?thesis by simp
  next
    case (Cons u us)
    with h2 s2 c2 s1 c1 ticks show ?thesis by simp
  qed
  with a2 ticks show ?thesis by (simp add: apply_ticks_Cons)
qed

text \<open>
  C4. Take ticks for one pair, each with a positive price (as a tick has), with strictly
  increasing timestamps that all lie within one hour of the first, the first of them
  starting the pair's bucket. After each of them (after the first \<open>k\<close>, for every
  \<open>0 < k \<le> length ticks\<close>) the pair's \<open>hourly_average\<close> is the arithmetic mean of the prices
  seen so far in that hour: their sum divided by \<open>k\<close>.
\<close>

theorem hourly_average_is_mean:
  assumes "opens_bucket store (hd ticks)"
    and "\<forall>t \<in> set ticks. tick_pair t = p \<and> 0 < tick_price t
               \<and> observed_at t - observed_at (hd ticks) < HOUR"
    and "sorted_wrt (<) (map observed_at ticks)"
    and "0 < k" and "k \<le> length ticks"
  shows "\<exists>st'. apply_ticks store (take k ticks) p = Some st'
      \<and> hourly_average st' = Some (sum_list (map tick_price (take k ticks)) / real k)"
proof -
  have ne: "take k ticks \<noteq> []" using assms(4,5) by auto
  have hd: "hd (take k ticks) = hd ticks" using assms(4) by simp
  have first: "opens_bucket store (hd (take k ticks))" unfolding hd by (rule assms(1))
  have ok: "\<forall>t \<in> set (take k ticks). tick_pair t = p \<and> 0 < tick_price t
               \<and> observed_at t - observed_at (hd (take k ticks)) < HOUR"
    unfolding hd using assms(2) by (meson in_set_takeD)
  have inc: "sorted_wrt (<) (map observed_at (take k ticks))"
    using assms(3) by (simp add: take_map [symmetric] sorted_wrt_take)
  have len: "length (take k ticks) = k" using assms(5) by simp
  from mean_of_all_ticks [of "take k ticks" store p, OF ne first ok inc] show ?thesis
    unfolding len .
qed

text \<open>
  The specification's end-to-end example: prices 100, 110 and 120 within one hour give the
  average 110.
\<close>

theorem hourly_average_is_mean_witness:
  "\<exists>st'. apply_ticks Map.empty (take 3 [trade 100 10, trade 110 20, trade 120 30]) ''ETH/USD''
            = Some st'
      \<and> hourly_average st' = Some 110"
  using hourly_average_is_mean [of Map.empty "[trade 100 10, trade 110 20, trade 120 30]"
      "''ETH/USD''" 3]
  by (simp add: HOUR_def opens_bucket_def)

end
